theory Spec2Isabelle
  imports Main "HOL-Library.Extended_Nat" "HOL-Library.Multiset"
begin

chapter \<open>The embedding\<close>

section \<open>Values and JavaScript primitives\<close>

text \<open>
  The analyzer works on the output of \<^verbatim>\<open>JSON.parse\<close>. A JSON object is kept as the list of
  its own properties (key, value) in the order of their creation; a key is looked up with
  \<open>map_of\<close>. JavaScript enumerates integer-like keys before the others; every property
  proved below is about the value found under a key and does not depend on the order.
  Numbers only occur under truthiness tests in the code modelled here, so they are integers.
  Strings are lists of characters, which the code compares, joins and splits at ASCII
  characters only.
\<close>

datatype json =
    JNull
  | JBool bool
  | JNum int
  | JStr string
  | JArr "json list"
  | JObj "(string \<times> json) list"

type_synonym jobject = "(string \<times> json) list"

datatype error =
    FsError string
  | ParseError
  | TypeError
  | SyntaxError
  | Unmodelled

text \<open>
  Truthiness of a value, as \<^verbatim>\<open>!x\<close> and \<^verbatim>\<open>x && y\<close> test it.
\<close>

fun truthy :: "json \<Rightarrow> bool" where
  "truthy JNull = False"
| "truthy (JBool b) = b"
| "truthy (JNum n) = (n \<noteq> 0)"
| "truthy (JStr s) = (s \<noteq> [])"
| "truthy (JArr xs) = True"
| "truthy (JObj kvs) = True"

text \<open>Decimal digits of a length, as a template literal prints it.\<close>

fun string_of_nat :: "nat \<Rightarrow> string" where
  "string_of_nat n =
     (if n < 10 then [''0123456789'' ! n]
      else string_of_nat (n div 10) @ [''0123456789'' ! (n mod 10)])"

text \<open>
  The own enumerable properties of a value, as \<^verbatim>\<open>Object.entries\<close> lists them for a value
  other than \<^verbatim>\<open>null\<close> and as a spread \<^verbatim>\<open>{ ...v }\<close> copies them.
\<close>

definition entriesOf :: "json \<Rightarrow> (string \<times> json) list" where
  "entriesOf v =
     (case v of
        JObj kvs \<Rightarrow> kvs
      | JArr xs \<Rightarrow> zip (map string_of_nat [0 ..< length xs]) xs
      | JStr s \<Rightarrow> zip (map string_of_nat [0 ..< length s]) (map (\<lambda>c. JStr [c]) s)
      | _ \<Rightarrow> [])"

text \<open>The strings of an array that holds strings only.\<close>

fun stringsOf :: "json list \<Rightarrow> string list option" where
  "stringsOf [] = Some []"
| "stringsOf (JStr s # xs) = (case stringsOf xs of None \<Rightarrow> None | Some ss \<Rightarrow> Some (s # ss))"
| "stringsOf (x # xs) = None"

text \<open>\<^verbatim>\<open>interface ProjectStructure\<close>: the project-relative paths found by the scan.\<close>

record ProjectStructure =
  files :: "string list"
  directories :: "string list"

section \<open>config-finder: priority selection\<close>

definition CONFIG_FILE_NAMES :: "string list" where
  "CONFIG_FILE_NAMES =
     [''tsconfig.json'', ''tsconfig.app.json'', ''tsconfig.node.json'', ''jsconfig.json'']"

text \<open>
  \<^verbatim>\<open>path.basename\<close> (POSIX): trailing separators are dropped, then the part after the last
  separator is returned.
\<close>

definition basename :: "string \<Rightarrow> string" where
  "basename p =
     rev (takeWhile (\<lambda>c. c \<noteq> CHR ''/'') (dropWhile (\<lambda>c. c = CHR ''/'') (rev p)))"

text \<open>
  \<^verbatim>\<open>new Map(CONFIG_FILE_NAMES.map((name, index) => [name, index]))\<close> and its \<^verbatim>\<open>get\<close>;
  \<open>None\<close> is \<^verbatim>\<open>undefined\<close>.
\<close>

definition configPriority :: "string \<Rightarrow> nat option" where
  "configPriority = map_of (zip CONFIG_FILE_NAMES [0 ..< length CONFIG_FILE_NAMES])"

text \<open>\<^verbatim>\<open>configPriority.get(fileName) ?? Number.POSITIVE_INFINITY\<close>\<close>

definition priority :: "string \<Rightarrow> enat" where
  "priority configFile =
     (case configPriority (basename configFile) of None \<Rightarrow> \<infinity> | Some i \<Rightarrow> enat i)"

text \<open>
  One iteration of the loop of \<^verbatim>\<open>determineRelevantConfigs\<close>: \<^verbatim>\<open>unshift\<close> when the list is
  empty or when the priority of the front is known (\<^verbatim>\<open>!= null\<close>) and strictly larger,
  \<^verbatim>\<open>push\<close> otherwise.
\<close>

definition relevantStep :: "string list \<Rightarrow> string \<Rightarrow> string list" where
  "relevantStep relevantConfigs configFile =
     (let configPriorityValue =
            (case relevantConfigs of [] \<Rightarrow> None | front # _ \<Rightarrow> configPriority (basename front))
      in if relevantConfigs = [] \<or>
            (case configPriorityValue of None \<Rightarrow> False | Some v \<Rightarrow> priority configFile < enat v)
         then configFile # relevantConfigs
         else relevantConfigs @ [configFile])"

fun relevantLoop :: "string list \<Rightarrow> string list \<Rightarrow> string list" where
  "relevantLoop relevantConfigs [] = relevantConfigs"
| "relevantLoop relevantConfigs (configFile # configFiles) =
     relevantLoop (relevantStep relevantConfigs configFile) configFiles"

definition determineRelevantConfigs :: "string list \<Rightarrow> string list" where
  "determineRelevantConfigs configFiles = relevantLoop [] configFiles"

text \<open>The full stable sort by rank that the selection is compared with.\<close>

definition stableSortByRank :: "string list \<Rightarrow> string list" where
  "stableSortByRank configFiles = sort_key priority configFiles"

text \<open>
  The loop invariant: the list is not empty, its front is an element seen so far with the
  least priority, and every element discovered before the front has a strictly larger one.
  \<open>seen\<close> is the prefix of the input consumed so far.
\<close>

definition frontInv :: "string list \<Rightarrow> string list \<Rightarrow> bool" where
  "frontInv seen rs \<longleftrightarrow>
     rs \<noteq> [] \<and>
     (\<exists>i < length seen. hd rs = seen ! i \<and>
        (\<forall>j < length seen. priority (seen ! i) \<le> priority (seen ! j)) \<and>
        (\<forall>j < i. priority (seen ! i) < priority (seen ! j)))"

section \<open>config-finder: configurations and the injected file system\<close>

text \<open>
  \<^verbatim>\<open>interface TSConfig\<close>: the five declared properties, each optional (\<open>None\<close> is an absent
  property), and the properties admitted by the index signature, in \<open>others\<close>. An object or
  an array is truthy whatever it holds, so \<^verbatim>\<open>if (config.compilerOptions)\<close> and
  \<^verbatim>\<open>if (config[prop])\<close> test for \<open>Some\<close>.
\<close>

record TSConfig =
  compilerOptions :: "jobject option"
  "include" :: "string list option"
  exclude :: "string list option"
  "extends" :: "string option"
  files :: "string list option"
  others :: jobject

text \<open>\<^verbatim>\<open>interface PackageJson\<close>, the fields the resolver reads.\<close>

record PackageJson =
  types :: "string option"
  typings :: "string option"

datatype EntryKind = IsFile | IsDirectory | IsOther

record Dirent =
  name :: string
  kind :: EntryKind

text \<open>
  The file system and the parser are collaborators of the code: \<^verbatim>\<open>fs.readdir\<close> with
  \<^verbatim>\<open>withFileTypes\<close>, \<^verbatim>\<open>fs.readFile\<close>, \<^verbatim>\<open>fs.access\<close> (\<open>True\<close> when it resolves),
  \<^verbatim>\<open>JSON.parse\<close> at the two types the code reads its result at, and \<^verbatim>\<open>path.join\<close>.
  A rejected promise or a thrown exception is \<open>Inl\<close>.
\<close>

record Env =
  readdir :: "string \<Rightarrow> error + Dirent list"
  readFile :: "string \<Rightarrow> error + string"
  access :: "string \<Rightarrow> bool"
  parseTSConfig :: "string \<Rightarrow> error + TSConfig"
  parsePackageJson :: "string \<Rightarrow> error + PackageJson"
  join :: "string \<Rightarrow> string \<Rightarrow> string"

text \<open>\<^verbatim>\<open>readTSConfig\<close>: the \<^verbatim>\<open>catch\<close> logs and rethrows.\<close>

definition readTSConfig :: "Env \<Rightarrow> string \<Rightarrow> error + TSConfig" where
  "readTSConfig env configPath =
     (case readFile env configPath of
        Inl e \<Rightarrow> Inl e
      | Inr content \<Rightarrow> parseTSConfig env content)"

section \<open>config-finder: merge\<close>

text \<open>Assignment \<^verbatim>\<open>obj[k] = v\<close>: an existing property keeps its place, a new one is added last.\<close>

fun obj_set :: "(string \<times> 'a) list \<Rightarrow> string \<Rightarrow> 'a \<Rightarrow> (string \<times> 'a) list" where
  "obj_set [] k v = [(k, v)]"
| "obj_set ((k', v') # kvs) k v =
     (if k' = k then (k, v) # kvs else (k', v') # obj_set kvs k v)"

text \<open>\<^verbatim>\<open>{ ...a, ...b }\<close>, where an absent \<^verbatim>\<open>a\<close> spreads to nothing.\<close>

definition spread :: "jobject option \<Rightarrow> jobject \<Rightarrow> jobject" where
  "spread a b =
     fold (\<lambda>(k, v) acc. obj_set acc k v) b (case a of None \<Rightarrow> [] | Some kvs \<Rightarrow> kvs)"

text \<open>
  \<^verbatim>\<open>mergedConfig\<close> starts as \<^verbatim>\<open>{}\<close>, an object whose prototype is \<^verbatim>\<open>Object.prototype\<close>, and
  the loop assigns to it under keys read from the sources. \<^verbatim>\<open>JSON.parse\<close> creates
  \<^verbatim>\<open>"__proto__"\<close> as an own property of a source, so \<^verbatim>\<open>Object.entries\<close> yields it, and the
  assignment \<^verbatim>\<open>mergedConfig["__proto__"] = value\<close> runs the setter of
  \<^verbatim>\<open>Object.prototype\<close>: an object or an array becomes the prototype of \<^verbatim>\<open>mergedConfig\<close>,
  \<^verbatim>\<open>null\<close> removes the prototype, any other value is ignored. The merged object is
  therefore kept as its own properties together with its prototype.
\<close>

datatype Prototype =
    ObjectPrototype
  | NullPrototype
  | ValuePrototype json

record MergedConfig =
  own :: TSConfig
  prototype :: Prototype

text \<open>
  What a read \<^verbatim>\<open>mergedConfig.k\<close> finds beyond the own properties, for the four names the
  loop reads (\<^verbatim>\<open>compilerOptions\<close>, \<^verbatim>\<open>include\<close>, \<^verbatim>\<open>exclude\<close>, \<^verbatim>\<open>files\<close>). Neither
  \<^verbatim>\<open>Object.prototype\<close> nor \<^verbatim>\<open>Array.prototype\<close> has a property of these names and an array
  has indices and \<^verbatim>\<open>length\<close> only, so the read finds the own property of an object that was
  made the prototype, or nothing (\<open>None\<close> is \<^verbatim>\<open>undefined\<close>).
\<close>

definition inherited :: "Prototype \<Rightarrow> string \<Rightarrow> json option" where
  "inherited p k = (case p of ValuePrototype (JObj kvs) \<Rightarrow> map_of kvs k | _ \<Rightarrow> None)"

text \<open>
  \<^verbatim>\<open>mergedConfig.compilerOptions\<close> as the spread reads it: the own property, else the
  inherited value, whose own enumerable properties the spread copies.
\<close>

definition currentOptions :: "MergedConfig \<Rightarrow> jobject option" where
  "currentOptions mergedConfig =
     (case compilerOptions (own mergedConfig) of
        Some options \<Rightarrow> Some options
      | None \<Rightarrow> map_option entriesOf (inherited (prototype mergedConfig) ''compilerOptions''))"

text \<open>
  \<^verbatim>\<open>[...value]\<close> for a truthy inherited value: an array gives its elements and a string its
  characters; an object, a number and \<^verbatim>\<open>true\<close> are not iterable. The result is stored in a
  property declared \<^verbatim>\<open>string[]\<close>; an inherited array that holds something else than
  strings is outside the model.
\<close>

definition spreadElements :: "json \<Rightarrow> error + string list" where
  "spreadElements v =
     (case v of
        JArr xs \<Rightarrow> (case stringsOf xs of None \<Rightarrow> Inl Unmodelled | Some ss \<Rightarrow> Inr ss)
      | JStr s \<Rightarrow> Inr (map (\<lambda>c. [c]) s)
      | _ \<Rightarrow> Inl TypeError)"

text \<open>
  \<^verbatim>\<open>if (config[prop]) mergedConfig[prop] = [...(mergedConfig[prop] || []), ...config[prop]]\<close>,
  given the own property of \<^verbatim>\<open>mergedConfig\<close>, the value it inherits and the property of the
  source.
\<close>

definition mergeArray ::
  "string list option \<Rightarrow> json option \<Rightarrow> string list option \<Rightarrow> error + string list option" where
  "mergeArray ownValue inheritedValue cfg =
     (case cfg of
        None \<Rightarrow> Inr ownValue
      | Some xs \<Rightarrow>
          (case ownValue of
             Some ys \<Rightarrow> Inr (Some (ys @ xs))
           | None \<Rightarrow>
               (case inheritedValue of
                  None \<Rightarrow> Inr (Some xs)
                | Some v \<Rightarrow>
                    if \<not> truthy v then Inr (Some xs)
                    else (case spreadElements v of
                            Inl e \<Rightarrow> Inl e
                          | Inr zs \<Rightarrow> Inr (Some (zs @ xs))))))"

definition RESERVED :: "string list" where
  "RESERVED = [''compilerOptions'', ''include'', ''exclude'', ''files'', ''extends'']"

definition emptyConfig :: TSConfig where
  "emptyConfig = \<lparr>compilerOptions = None, include = None, exclude = None, extends = None,
                   files = None, others = []\<rparr>"

text \<open>The setter of \<^verbatim>\<open>Object.prototype.__proto__\<close>.\<close>

definition setPrototype :: "Prototype \<Rightarrow> json \<Rightarrow> Prototype" where
  "setPrototype p v =
     (case v of
        JObj kvs \<Rightarrow> ValuePrototype v
      | JArr xs \<Rightarrow> ValuePrototype v
      | JNull \<Rightarrow> NullPrototype
      | _ \<Rightarrow> p)"

text \<open>
  Whether an assignment to \<^verbatim>\<open>"__proto__"\<close> reaches that setter: it does unless
  \<^verbatim>\<open>mergedConfig\<close> has an own property of the name, has no prototype, or has for prototype
  an object with an own property of the name (a data property, as parsed).
\<close>

definition reachesSetter :: "MergedConfig \<Rightarrow> bool" where
  "reachesSetter mergedConfig \<longleftrightarrow>
     map_of (others (own mergedConfig)) ''__proto__'' = None
     \<and> (case prototype mergedConfig of
          ObjectPrototype \<Rightarrow> True
        | NullPrototype \<Rightarrow> False
        | ValuePrototype (JObj kvs) \<Rightarrow> map_of kvs ''__proto__'' = None
        | ValuePrototype _ \<Rightarrow> True)"

text \<open>
  \<^verbatim>\<open>mergedConfig[key] = value\<close> for a key outside the reserved list. Every property found
  along the prototype chain other than \<^verbatim>\<open>__proto__\<close> of \<^verbatim>\<open>Object.prototype\<close> is a writable
  data property, so the assignment creates or updates an own property.
\<close>

definition assign :: "MergedConfig \<Rightarrow> string \<Rightarrow> json \<Rightarrow> MergedConfig" where
  "assign mergedConfig key v =
     (if key = ''__proto__'' \<and> reachesSetter mergedConfig
      then mergedConfig\<lparr>prototype := setPrototype (prototype mergedConfig) v\<rparr>
      else mergedConfig\<lparr>own := (own mergedConfig)\<lparr>others := obj_set (others (own mergedConfig)) key v\<rparr>\<rparr>)"

text \<open>
  The body of the merge loop, for one source: the compiler options, the three arrays (a
  spread that throws ends the merge), then the other properties.
\<close>

definition mergeStep :: "MergedConfig \<Rightarrow> TSConfig \<Rightarrow> error + MergedConfig" where
  "mergeStep mergedConfig config =
     (let m1 = (case compilerOptions config of
                  None \<Rightarrow> mergedConfig
                | Some co \<Rightarrow>
                    mergedConfig\<lparr>own := (own mergedConfig)
                      \<lparr>compilerOptions := Some (spread (currentOptions mergedConfig) co)\<rparr>\<rparr>);
          p = prototype m1
      in case mergeArray (include (own m1)) (inherited p ''include'') (include config) of
           Inl e \<Rightarrow> Inl e
         | Inr inc \<Rightarrow>
        (case mergeArray (exclude (own m1)) (inherited p ''exclude'') (exclude config) of
           Inl e \<Rightarrow> Inl e
         | Inr exc \<Rightarrow>
        (case mergeArray (files (own m1)) (inherited p ''files'') (files config) of
           Inl e \<Rightarrow> Inl e
         | Inr fls \<Rightarrow>
             Inr (fold (\<lambda>(key, v) m. if key \<notin> set RESERVED then assign m key v else m)
                    (others config)
                    (m1\<lparr>own := (own m1)\<lparr>include := inc, exclude := exc, files := fls\<rparr>\<rparr>)))))"

fun mergeLoop :: "MergedConfig \<Rightarrow> TSConfig list \<Rightarrow> error + MergedConfig" where
  "mergeLoop mergedConfig [] = Inr mergedConfig"
| "mergeLoop mergedConfig (config # configs) =
     (case mergeStep mergedConfig config of
        Inl e \<Rightarrow> Inl e
      | Inr m \<Rightarrow> mergeLoop m configs)"

text \<open>The first loop of \<^verbatim>\<open>mergeConfigs\<close>: a source that cannot be read aborts the merge.\<close>

fun readConfigs :: "Env \<Rightarrow> string list \<Rightarrow> error + TSConfig list" where
  "readConfigs env [] = Inr []"
| "readConfigs env (configPath # configPaths) =
     (case readTSConfig env configPath of
        Inl e \<Rightarrow> Inl e
      | Inr config \<Rightarrow>
          (case readConfigs env configPaths of
             Inl e \<Rightarrow> Inl e
           | Inr configs \<Rightarrow> Inr (config # configs)))"

definition mergeConfigs :: "Env \<Rightarrow> string list \<Rightarrow> error + MergedConfig" where
  "mergeConfigs env configPaths =
     (case readConfigs env configPaths of
        Inl e \<Rightarrow> Inl e
      | Inr configs \<Rightarrow>
          mergeLoop \<lparr>own = emptyConfig, prototype = ObjectPrototype\<rparr> (rev configs))"

text \<open>What the merge claims speak of: the option a source sets, and the array it declares.\<close>

definition optionOf :: "TSConfig \<Rightarrow> string \<Rightarrow> json option" where
  "optionOf config k = (case compilerOptions config of None \<Rightarrow> None | Some co \<Rightarrow> map_of co k)"

definition arrayOf :: "string list option \<Rightarrow> string list" where
  "arrayOf a = (case a of None \<Rightarrow> [] | Some xs \<Rightarrow> xs)"

text \<open>The value of the first source of a list that sets a key.\<close>

fun firstSet :: "'a option list \<Rightarrow> 'a option" where
  "firstSet [] = None"
| "firstSet (Some v # _) = Some v"
| "firstSet (None # xs) = firstSet xs"

text \<open>Objects as \<^verbatim>\<open>JSON.parse\<close> builds them have one property per key.\<close>

definition wfConfig :: "TSConfig \<Rightarrow> bool" where
  "wfConfig config \<longleftrightarrow>
     distinct (map fst (case compilerOptions config of None \<Rightarrow> [] | Some co \<Rightarrow> co)) \<and>
     distinct (map fst (others config))"

text \<open>A source without a property named \<^verbatim>\<open>__proto__\<close>.\<close>

definition plainSource :: "TSConfig \<Rightarrow> bool" where
  "plainSource config \<longleftrightarrow> map_of (others config) ''__proto__'' = None"

text \<open>
  Sources for the merge to run on, and a file system that holds them:
  \<^verbatim>\<open>{"__proto__": 5, "compileOnSave": true}\<close>;
  \<^verbatim>\<open>{"compilerOptions": {"target": "es5"}}\<close> and
  \<^verbatim>\<open>{"__proto__": {"compilerOptions": {"strict": true}}}\<close>;
  \<^verbatim>\<open>{"include": ["a"]}\<close> and \<^verbatim>\<open>{"__proto__": {"include": ["evil"]}}\<close>.
\<close>

definition baseSource :: TSConfig where
  "baseSource =
     \<lparr>compilerOptions = Some [(''target'', JStr ''es5''), (''strict'', JBool True)],
      include = Some [''src''], exclude = None, extends = None, files = Some [''a.ts''],
      others = [(''compileOnSave'', JBool True)]\<rparr>"

definition numberSource :: TSConfig where
  "numberSource = emptyConfig\<lparr>others := [(''__proto__'', JNum 5), (''compileOnSave'', JBool True)]\<rparr>"

definition targetSource :: TSConfig where
  "targetSource = emptyConfig\<lparr>compilerOptions := Some [(''target'', JStr ''es5'')]\<rparr>"

definition optionsProtoSource :: TSConfig where
  "optionsProtoSource =
     emptyConfig\<lparr>others :=
       [(''__proto__'', JObj [(''compilerOptions'', JObj [(''strict'', JBool True)])])]\<rparr>"

definition includeSource :: TSConfig where
  "includeSource = emptyConfig\<lparr>include := Some [''a'']\<rparr>"

definition includeProtoSource :: TSConfig where
  "includeProtoSource =
     emptyConfig\<lparr>others := [(''__proto__'', JObj [(''include'', JArr [JStr ''evil''])])]\<rparr>"

definition protoEnv :: Env where
  "protoEnv =
     \<lparr>readdir = (\<lambda>dir. Inl (FsError ''ENOENT'')),
      readFile = (\<lambda>p. if p \<in> set [''number.json'', ''target.json'', ''options-proto.json'',
                                        ''include.json'', ''include-proto.json'']
                       then Inr p else Inl (FsError ''ENOENT'')),
      access = (\<lambda>p. False),
      parseTSConfig = (\<lambda>content.
        if content = ''number.json'' then Inr numberSource
        else if content = ''target.json'' then Inr targetSource
        else if content = ''options-proto.json'' then Inr optionsProtoSource
        else if content = ''include.json'' then Inr includeSource
        else if content = ''include-proto.json'' then Inr includeProtoSource
        else Inl ParseError),
      parsePackageJson = (\<lambda>content. Inl ParseError),
      join = (\<lambda>a b. a @ ''/'' @ b)\<rparr>"

section \<open>compiler-options: the schema and its validation\<close>

text \<open>
  The schema is a \<^verbatim>\<open>z.object\<close> whose fields are all \<^verbatim>\<open>.optional()\<close> and of four shapes:
  \<^verbatim>\<open>z.enum([...])\<close>, \<^verbatim>\<open>z.boolean()\<close>, \<^verbatim>\<open>z.string()\<close> and \<^verbatim>\<open>z.array(z.string())\<close>.
\<close>

datatype Shape = Enum "string list" | Boolean | String | StringArray

definition compilerOptionsSchema :: "(string \<times> Shape) list" where
  "compilerOptionsSchema =
    [(''target'', Enum [''es3'', ''es5'', ''es6'', ''es2015'', ''es2016'', ''es2017'', ''es2018'',
                        ''es2019'', ''es2020'', ''es2021'', ''es2022'', ''esnext'']),
     (''module'', Enum [''none'', ''commonjs'', ''amd'', ''system'', ''umd'', ''es6'', ''es2015'',
                        ''es2020'', ''es2022'', ''esnext'', ''node16'', ''nodenext'']),
     (''lib'', StringArray),
     (''allowJs'', Boolean),
     (''checkJs'', Boolean),
     (''jsx'', Enum [''preserve'', ''react'', ''react-native'', ''react-jsx'', ''react-jsxdev'']),
     (''declaration'', Boolean),
     (''declarationMap'', Boolean),
     (''sourceMap'', Boolean),
     (''outFile'', String),
     (''outDir'', String),
     (''rootDir'', String),
     (''composite'', Boolean),
     (''removeComments'', Boolean),
     (''noEmit'', Boolean),
     (''importHelpers'', Boolean),
     (''downlevelIteration'', Boolean),
     (''isolatedModules'', Boolean),
     (''strict'', Boolean),
     (''noImplicitAny'', Boolean),
     (''strictNullChecks'', Boolean),
     (''strictFunctionTypes'', Boolean),
     (''strictBindCallApply'', Boolean),
     (''strictPropertyInitialization'', Boolean),
     (''noImplicitThis'', Boolean),
     (''useUnknownInCatchVariables'', Boolean),
     (''alwaysStrict'', Boolean),
     (''noUnusedLocals'', Boolean),
     (''noUnusedParameters'', Boolean),
     (''exactOptionalPropertyTypes'', Boolean),
     (''noImplicitReturns'', Boolean),
     (''noFallthroughCasesInSwitch'', Boolean),
     (''noUncheckedIndexedAccess'', Boolean),
     (''noImplicitOverride'', Boolean),
     (''noPropertyAccessFromIndexSignature'', Boolean),
     (''allowUnusedLabels'', Boolean),
     (''allowUnreachableCode'', Boolean),
     (''skipLibCheck'', Boolean),
     (''forceConsistentCasingInFileNames'', Boolean)]"

text \<open>
  A \<^verbatim>\<open>ZodIssue\<close>: its code and the path of the offending value. The message text is the
  library's and is left out.
\<close>

datatype PathSegment = Key string | Index nat

datatype IssueCode = invalid_type | invalid_enum_value

record ZodIssue =
  code :: IssueCode
  path :: "PathSegment list"

text \<open>
  The library's \<^verbatim>\<open>safeParse\<close>, for the four shapes. An enum reports a value that is not a
  string as \<open>invalid_type\<close> and a string outside its list as \<open>invalid_enum_value\<close>; an array
  reports every element that is not a string, under the element's index.
\<close>

fun elementIssues :: "PathSegment list \<Rightarrow> nat \<Rightarrow> json list \<Rightarrow> ZodIssue list" where
  "elementIssues p i [] = []"
| "elementIssues p i (x # xs) =
     (case x of JStr s \<Rightarrow> [] | _ \<Rightarrow> [\<lparr>code = invalid_type, path = p @ [Index i]\<rparr>])
       @ elementIssues p (Suc i) xs"

fun valueIssues :: "Shape \<Rightarrow> PathSegment list \<Rightarrow> json \<Rightarrow> ZodIssue list" where
  "valueIssues (Enum values) p (JStr s) =
     (if s \<in> set values then [] else [\<lparr>code = invalid_enum_value, path = p\<rparr>])"
| "valueIssues (Enum values) p v = [\<lparr>code = invalid_type, path = p\<rparr>]"
| "valueIssues Boolean p (JBool b) = []"
| "valueIssues Boolean p v = [\<lparr>code = invalid_type, path = p\<rparr>]"
| "valueIssues String p (JStr s) = []"
| "valueIssues String p v = [\<lparr>code = invalid_type, path = p\<rparr>]"
| "valueIssues StringArray p (JArr xs) = elementIssues p 0 xs"
| "valueIssues StringArray p v = [\<lparr>code = invalid_type, path = p\<rparr>]"

text \<open>
  An object is checked field by field in the order of the schema; a field the object lacks
  is accepted (\<^verbatim>\<open>optional\<close>) and a property the schema does not name is ignored (the
  object schema is neither \<^verbatim>\<open>strict\<close> nor \<^verbatim>\<open>passthrough\<close>).
\<close>

fun objectIssues :: "(string \<times> Shape) list \<Rightarrow> jobject \<Rightarrow> ZodIssue list" where
  "objectIssues [] kvs = []"
| "objectIssues ((key, shape) # schema) kvs =
     (case map_of kvs key of None \<Rightarrow> [] | Some v \<Rightarrow> valueIssues shape [Key key] v)
       @ objectIssues schema kvs"

fun safeParse :: "(string \<times> Shape) list \<Rightarrow> json \<Rightarrow> ZodIssue list" where
  "safeParse schema (JObj kvs) = objectIssues schema kvs"
| "safeParse schema v = [\<lparr>code = invalid_type, path = []\<rparr>]"

record ValidationResult =
  valid :: bool
  errors :: "ZodIssue list"

definition validateCompilerOptions :: "json \<Rightarrow> ValidationResult" where
  "validateCompilerOptions options =
     (let issues = safeParse compilerOptionsSchema options;
          success = (issues = [])
      in \<lparr>valid = success, errors = (if success then [] else issues)\<rparr>)"

section \<open>common-issues: the catalog, detection and fixes\<close>

text \<open>
  \<^verbatim>\<open>String.prototype.toLowerCase\<close> on the letters A to Z; the option names compared with
  are ASCII.
\<close>

definition toLowerCase :: "string \<Rightarrow> string" where
  "toLowerCase s =
     map (\<lambda>c. case map_of (zip ''ABCDEFGHIJKLMNOPQRSTUVWXYZ'' ''abcdefghijklmnopqrstuvwxyz'') c of
                 None \<Rightarrow> c
               | Some l \<Rightarrow> l) s"

text \<open>
  \<^verbatim>\<open>x?.toLowerCase()\<close> for \<^verbatim>\<open>x = config.compilerOptions?.key\<close>, which is \<open>optionOf\<close>:
  \<^verbatim>\<open>undefined\<close> for an absent or \<^verbatim>\<open>null\<close> value, the lower-cased string for a string,
  and a \<^verbatim>\<open>TypeError\<close> for any other value, which has no such method.
\<close>

fun optionalLower :: "json option \<Rightarrow> error + string option" where
  "optionalLower None = Inr None"
| "optionalLower (Some JNull) = Inr None"
| "optionalLower (Some (JStr s)) = Inr (Some (toLowerCase s))"
| "optionalLower (Some v) = Inl TypeError"

text \<open>\<^verbatim>\<open>!config.compilerOptions?.key\<close>\<close>

definition notEnabled :: "string \<Rightarrow> TSConfig \<Rightarrow> bool" where
  "notEnabled key config =
     (\<not> (case optionOf config key of None \<Rightarrow> False | Some v \<Rightarrow> truthy v))"

text \<open>\<^verbatim>\<open>{ ...config, compilerOptions: { ...config.compilerOptions, key: v } }\<close>\<close>

definition withOption :: "string \<Rightarrow> json \<Rightarrow> TSConfig \<Rightarrow> TSConfig" where
  "withOption key v config =
     config\<lparr>compilerOptions := Some (spread (compilerOptions config) [(key, v)])\<rparr>"

text \<open>
  \<^verbatim>\<open>interface Issue\<close>. A check may throw; what it returns is used for its truthiness by
  \<^verbatim>\<open>filter\<close>.
\<close>

record Issue =
  description :: string
  check :: "TSConfig \<Rightarrow> error + bool"
  "fix" :: "TSConfig \<Rightarrow> TSConfig"
  reason :: string

definition commonIssues :: "Issue list" where
  "commonIssues =
    [
     \<lparr>description = ''Strict mode is not enabled'',
      check = (\<lambda>config. Inr (notEnabled ''strict'' config)),
      fix = withOption ''strict'' (JBool True),
      reason = ''Enabling strict mode helps catch more errors and improves '' @
               ''type safety.''\<rparr>,
     \<lparr>description = ''Target is set to an outdated ECMAScript version'',
      check = (\<lambda>config.
          (case optionalLower (optionOf config ''target'') of
             Inl e \<Rightarrow> Inl e
           | Inr target \<Rightarrow>
               Inr (case target of
                      None \<Rightarrow> False
                    | Some t \<Rightarrow> t \<noteq> [] \<and>
                        t \<notin> set [''es2018'', ''es2019'', ''es2020'', ''es2021'', ''es2022'', ''esnext'']))),
      fix = withOption ''target'' (JStr ''es2022''),
      reason = ''Using a more modern target allows for better optimizations '' @
               ''and newer language features.''\<rparr>,
     \<lparr>description = ''Module is not set to ESNext'',
      check = (\<lambda>config.
          (case optionalLower (optionOf config ''module'') of
             Inl e \<Rightarrow> Inl e
           | Inr m \<Rightarrow> Inr (m \<noteq> Some ''esnext''))),
      fix = withOption ''module'' (JStr ''ESNext''),
      reason = ''Using ESNext as the module system enables better '' @
               ''tree-shaking and is more future-proof.''\<rparr>,
     \<lparr>description = ''esModuleInterop is not enabled'',
      check = (\<lambda>config. Inr (notEnabled ''esModuleInterop'' config)),
      fix = withOption ''esModuleInterop'' (JBool True),
      reason = ''Enabling esModuleInterop improves compatibility with '' @
               ''CommonJS modules.''\<rparr>,
     \<lparr>description = ''forceConsistentCasingInFileNames is not enabled'',
      check = (\<lambda>config. Inr (notEnabled ''forceConsistentCasingInFileNames'' config)),
      fix = withOption ''forceConsistentCasingInFileNames'' (JBool True),
      reason = ''Enforcing consistent casing in file names helps prevent '' @
               ''issues on case-insensitive file systems.''\<rparr>,
     \<lparr>description = ''skipLibCheck is not enabled'',
      check = (\<lambda>config. Inr (notEnabled ''skipLibCheck'' config)),
      fix = withOption ''skipLibCheck'' (JBool True),
      reason = ''Enabling skipLibCheck can significantly improve compilation '' @
               ''speed, especially in large projects.''\<rparr>,
     \<lparr>description = ''noImplicitAny is not enabled'',
      check = (\<lambda>config. Inr (notEnabled ''noImplicitAny'' config)),
      fix = withOption ''noImplicitAny'' (JBool True),
      reason = ''Enabling noImplicitAny helps catch potential type errors and '' @
               ''improves code quality.''\<rparr>,
     \<lparr>description = ''strictNullChecks is not enabled'',
      check = (\<lambda>config. Inr (notEnabled ''strictNullChecks'' config)),
      fix = withOption ''strictNullChecks'' (JBool True),
      reason = ''Enabling strictNullChecks helps prevent null and undefined '' @
               ''errors.''\<rparr>,
     \<lparr>description = ''noUnusedLocals is not enabled'',
      check = (\<lambda>config. Inr (notEnabled ''noUnusedLocals'' config)),
      fix = withOption ''noUnusedLocals'' (JBool True),
      reason = ''Enabling noUnusedLocals helps identify and remove unused '' @
               ''variables, improving code cleanliness.''\<rparr>,
     \<lparr>description = ''noUnusedParameters is not enabled'',
      check = (\<lambda>config. Inr (notEnabled ''noUnusedParameters'' config)),
      fix = withOption ''noUnusedParameters'' (JBool True),
      reason = ''Enabling noUnusedParameters helps identify and remove unused '' @
               ''function parameters, improving code cleanliness.''\<rparr>,
     \<lparr>description = ''sourceMap is not enabled'',
      check = (\<lambda>config. Inr (notEnabled ''sourceMap'' config)),
      fix = withOption ''sourceMap'' (JBool True),
      reason = ''Enabling sourceMap generation improves debugging experience '' @
               ''by mapping compiled code back to the original TypeScript '' @
               ''source.''\<rparr>,
     \<lparr>description = ''declaration is not enabled'',
      check = (\<lambda>config. Inr (notEnabled ''declaration'' config)),
      fix = withOption ''declaration'' (JBool True),
      reason = ''Enabling declaration file generation is crucial for '' @
               ''libraries and improves IDE support for consumers of your '' @
               ''code.''\<rparr>,
     \<lparr>description = ''resolveJsonModule is not enabled'',
      check = (\<lambda>config. Inr (notEnabled ''resolveJsonModule'' config)),
      fix = withOption ''resolveJsonModule'' (JBool True),
      reason = ''Enabling resolveJsonModule allows for importing JSON files '' @
               ''as modules, which can be useful for configuration files or '' @
               ''data.''\<rparr>]"

text \<open>What \<^verbatim>\<open>analyzeCommonIssues\<close> returns for a rule whose check holds.\<close>

record Finding =
  finding_description :: string
  finding_fix :: TSConfig
  finding_reason :: string

text \<open>\<^verbatim>\<open>commonIssues.filter((issue) => issue.check(config))\<close>; a check that throws ends it.\<close>

fun filterIssues :: "Issue list \<Rightarrow> TSConfig \<Rightarrow> error + Issue list" where
  "filterIssues [] config = Inr []"
| "filterIssues (issue # issues) config =
     (case check issue config of
        Inl e \<Rightarrow> Inl e
      | Inr holds \<Rightarrow>
          (case filterIssues issues config of
             Inl e \<Rightarrow> Inl e
           | Inr rest \<Rightarrow> Inr (if holds then issue # rest else rest)))"

definition analyzeCommonIssues :: "TSConfig \<Rightarrow> error + Finding list" where
  "analyzeCommonIssues config =
     (case filterIssues commonIssues config of
        Inl e \<Rightarrow> Inl e
      | Inr issues \<Rightarrow>
          Inr (map (\<lambda>issue. \<lparr>finding_description = description issue,
                              finding_fix = fix issue config,
                              finding_reason = reason issue\<rparr>) issues))"

definition applyFix :: "TSConfig \<Rightarrow> int \<Rightarrow> error + TSConfig" where
  "applyFix config fixIndex =
     (case analyzeCommonIssues config of
        Inl e \<Rightarrow> Inl e
      | Inr issues \<Rightarrow>
          Inr (if fixIndex \<ge> 0 \<and> fixIndex < int (length issues)
               then finding_fix (issues ! nat fixIndex)
               else config))"

text \<open>The configuration of the module's own example run.\<close>

definition exampleConfig :: TSConfig where
  "exampleConfig =
     emptyConfig\<lparr>compilerOptions :=
       Some [(''target'', JStr ''es5''), (''module'', JStr ''commonjs''), (''strict'', JBool False)]\<rparr>"

section \<open>project-structure: the pattern matcher\<close>

text \<open>
  \<^verbatim>\<open>str.replace(/c/g, r)\<close> for a single character \<^verbatim>\<open>c\<close> and a replacement free of
  \<^verbatim>\<open>$\<close>-patterns.
\<close>

definition replaceAll :: "char \<Rightarrow> string \<Rightarrow> string \<Rightarrow> string" where
  "replaceAll c r s = concat (map (\<lambda>x. if x = c then r else [x]) s)"

text \<open>
  The regular expressions that \<^verbatim>\<open>new RegExp(source)\<close> builds, for a fragment of the
  pattern language: the assertions \<^verbatim>\<open>^\<close> and \<^verbatim>\<open>$\<close>, the atom \<^verbatim>\<open>.\<close>, an escaped syntax
  character, any other character standing for itself, and the quantifiers \<^verbatim>\<open>*\<close> and \<^verbatim>\<open>+\<close>
  after an atom. On this fragment the constructor either builds the expression or throws a
  \<^verbatim>\<open>SyntaxError\<close>: a quantifier that follows no atom (the start, an assertion or another
  quantifier) has nothing to repeat, and a trailing backslash escapes nothing. A source
  that uses anything else (groups, classes, braces, alternation, \<^verbatim>\<open>?\<close>, other escapes) is
  outside the fragment, and the model answers \<open>Unmodelled\<close> for it, which is not a statement
  about the constructor.
\<close>

datatype Atom = AnyChar | Lit char

datatype Item = AssertStart | AssertEnd | One Atom | Star Atom | Plus Atom

definition syntaxCharacters :: "char list" where
  "syntaxCharacters = ''^$.*+?()[]{}|/'' @ [CHR 0x5C]"

fun parseRegExp :: "string \<Rightarrow> Item list \<Rightarrow> error + Item list" where
  "parseRegExp [] acc = Inr (rev acc)"
| "parseRegExp (c # cs) acc =
     (if c = CHR ''^'' then parseRegExp cs (AssertStart # acc)
      else if c = CHR ''$'' then parseRegExp cs (AssertEnd # acc)
      else if c = CHR ''.'' then parseRegExp cs (One AnyChar # acc)
      else if c = CHR 0x5C then
        (case cs of
           [] \<Rightarrow> Inl SyntaxError
         | e # cs' \<Rightarrow>
             if e \<in> set syntaxCharacters then parseRegExp cs' (One (Lit e) # acc)
             else Inl Unmodelled)
      else if c = CHR ''*'' \<or> c = CHR ''+'' then
        (case acc of
           One a # acc' \<Rightarrow> parseRegExp cs ((if c = CHR ''*'' then Star a else Plus a) # acc')
         | _ \<Rightarrow> Inl SyntaxError)
      else if c \<in> set ''()[{|?'' then Inl Unmodelled
      else parseRegExp cs (One (Lit c) # acc))"

definition RegExp :: "string \<Rightarrow> error + Item list" where
  "RegExp source = parseRegExp source []"

text \<open>\<^verbatim>\<open>.\<close> matches every character but a line terminator.\<close>

fun atomMatches :: "Atom \<Rightarrow> char \<Rightarrow> bool" where
  "atomMatches AnyChar c = (c \<noteq> CHR 0x0A \<and> c \<noteq> CHR 0x0D)"
| "atomMatches (Lit x) c = (c = x)"

text \<open>
  Whether the items match a prefix of the rest of the input; \<open>atStart\<close> tells whether the
  rest is the whole input.
\<close>

fun matchHere :: "Item list \<Rightarrow> bool \<Rightarrow> string \<Rightarrow> bool" where
  "matchHere [] atStart s = True"
| "matchHere (AssertStart # items) atStart s = (atStart \<and> matchHere items atStart s)"
| "matchHere (AssertEnd # items) atStart s = (s = [] \<and> matchHere items atStart s)"
| "matchHere (One a # items) atStart [] = False"
| "matchHere (One a # items) atStart (c # cs) = (atomMatches a c \<and> matchHere items False cs)"
| "matchHere (Star a # items) atStart [] = matchHere items atStart []"
| "matchHere (Star a # items) atStart (c # cs) =
     (matchHere items atStart (c # cs) \<or> (atomMatches a c \<and> matchHere (Star a # items) False cs))"
| "matchHere (Plus a # items) atStart [] = False"
| "matchHere (Plus a # items) atStart (c # cs) =
     (atomMatches a c \<and> matchHere (Star a # items) False cs)"

text \<open>\<^verbatim>\<open>regex.test(s)\<close>, without flags: a match may start at any position.\<close>

definition regexTest :: "Item list \<Rightarrow> string \<Rightarrow> bool" where
  "regexTest regex s = list_ex (\<lambda>i. matchHere regex (i = 0) (drop i s)) [0 ..< Suc (length s)]"

definition minimatch :: "string \<Rightarrow> string \<Rightarrow> error + bool" where
  "minimatch filename pattern =
     (let regexPattern =
            replaceAll (CHR ''?'') ''.''
              (replaceAll (CHR ''*'') ''.*''
                 (replaceAll (CHR ''.'') [CHR 0x5C, CHR ''.''] pattern))
      in case RegExp (''^'' @ regexPattern @ ''$'') of
           Inl e \<Rightarrow> Inl e
         | Inr regex \<Rightarrow> Inr (regexTest regex filename))"

section \<open>project-structure: the analyzer\<close>

text \<open>\<^verbatim>\<open>patterns.some((pattern) => minimatch(file, pattern))\<close>: stops at the first match.\<close>

fun somePattern :: "string \<Rightarrow> string list \<Rightarrow> error + bool" where
  "somePattern file [] = Inr False"
| "somePattern file (pattern # patterns) =
     (case minimatch file pattern of
        Inl e \<Rightarrow> Inl e
      | Inr True \<Rightarrow> Inr True
      | Inr False \<Rightarrow> somePattern file patterns)"

text \<open>\<^verbatim>\<open>structure.files.filter((file) => patterns.some(...))\<close>\<close>

fun filterFiles :: "string list \<Rightarrow> string list \<Rightarrow> error + string list" where
  "filterFiles [] patterns = Inr []"
| "filterFiles (file # fs) patterns =
     (case somePattern file patterns of
        Inl e \<Rightarrow> Inl e
      | Inr keep \<Rightarrow>
          (case filterFiles fs patterns of
             Inl e \<Rightarrow> Inl e
           | Inr kept \<Rightarrow> Inr (if keep then file # kept else kept)))"

definition missingHeader :: string where
  "missingHeader = ''The following files specified in 'files' are missing from the project:''"

text \<open>The block \<^verbatim>\<open>if (files) { ... }\<close>: the messages it pushes.\<close>

definition missingMessages :: "ProjectStructure \<Rightarrow> string list option \<Rightarrow> string list" where
  "missingMessages structure declared =
     (case declared of
        None \<Rightarrow> []
      | Some fs \<Rightarrow>
          (let missingFiles = filter (\<lambda>file. file \<notin> set (ProjectStructure.files structure)) fs
           in if length missingFiles > 0
              then missingHeader # map (\<lambda>file. ''  - '' @ file) missingFiles
              else []))"

definition includeMessage :: "nat \<Rightarrow> string" where
  "includeMessage n = ''Found '' @ string_of_nat n @ '' files matching 'include' patterns.''"

definition excludeMessage :: "nat \<Rightarrow> string" where
  "excludeMessage n =
     ''Warning: Found '' @ string_of_nat n @ '' files matching 'exclude' patterns.''"

definition analyzeProjectStructure :: "ProjectStructure \<Rightarrow> TSConfig \<Rightarrow> error + string list" where
  "analyzeProjectStructure structure tsconfig =
     (let messages = missingMessages structure (files tsconfig)
      in case (case include tsconfig of
                 None \<Rightarrow> Inr messages
               | Some patterns \<Rightarrow>
                   (case filterFiles (ProjectStructure.files structure) patterns of
                      Inl e \<Rightarrow> Inl e
                    | Inr includedFiles \<Rightarrow>
                        Inr (messages @ [includeMessage (length includedFiles)]))) of
           Inl e \<Rightarrow> Inl e
         | Inr messages \<Rightarrow>
             (case exclude tsconfig of
                None \<Rightarrow> Inr messages
              | Some patterns \<Rightarrow>
                  (case filterFiles (ProjectStructure.files structure) patterns of
                     Inl e \<Rightarrow> Inl e
                   | Inr excludedFiles \<Rightarrow>
                       Inr (if length excludedFiles > 0
                            then messages @ [excludeMessage (length excludedFiles)]
                            else messages))))"

section \<open>config-finder: discovery\<close>

definition startsWith :: "string \<Rightarrow> string \<Rightarrow> bool" where
  "startsWith s prefix = (take (length prefix) s = prefix)"

text \<open>
  \<^verbatim>\<open>scanDirectory\<close> of \<^verbatim>\<open>findTSConfigs\<close>, as the loop over the entries of one directory with
  the list \<^verbatim>\<open>configFiles\<close> threaded through. A failing \<^verbatim>\<open>readdir\<close> is not caught: it ends
  the scan with the error. The walk follows whatever the file system answers, so it need
  not end; \<open>None\<close> is a scan that does not return.
\<close>

partial_function (option) scanDirectoryLoop ::
  "Env \<Rightarrow> string \<Rightarrow> Dirent list \<Rightarrow> string list \<Rightarrow> (error + string list) option" where
  "scanDirectoryLoop env dir entries configFiles =
     (case entries of
        [] \<Rightarrow> Some (Inr configFiles)
      | entry # rest \<Rightarrow>
          if kind entry = IsDirectory \<and> \<not> startsWith (name entry) ''.''
               \<and> name entry \<noteq> ''node_modules''
          then (case readdir env (join env dir (name entry)) of
                  Inl e \<Rightarrow> Some (Inl e)
                | Inr subEntries \<Rightarrow>
                    Option.bind
                      (scanDirectoryLoop env (join env dir (name entry)) subEntries configFiles)
                      (\<lambda>r. case r of
                              Inl e \<Rightarrow> Some (Inl e)
                            | Inr found \<Rightarrow> scanDirectoryLoop env dir rest found))
          else if kind entry = IsFile \<and> name entry \<in> set CONFIG_FILE_NAMES
          then scanDirectoryLoop env dir rest (configFiles @ [join env dir (name entry)])
          else scanDirectoryLoop env dir rest configFiles)"

definition findTSConfigs :: "Env \<Rightarrow> string \<Rightarrow> (error + string list) option" where
  "findTSConfigs env projectRoot =
     (case readdir env projectRoot of
        Inl e \<Rightarrow> Some (Inl e)
      | Inr entries \<Rightarrow> scanDirectoryLoop env projectRoot entries [])"

section \<open>node-modules-resolver: the scan of the dependency directory\<close>

text \<open>
  \<^verbatim>\<open>findTSConfig\<close>: the candidate paths, with the falsy ones filtered out (an absent or empty
  \<^verbatim>\<open>types\<close> or \<^verbatim>\<open>typings\<close>), and the first of them that \<^verbatim>\<open>fs.access\<close> accepts.
\<close>

definition possiblePaths :: "Env \<Rightarrow> string \<Rightarrow> PackageJson \<Rightarrow> string list" where
  "possiblePaths env packagePath packageJson =
     [join env packagePath ''tsconfig.json'']
       @ (case types packageJson of
            None \<Rightarrow> []
          | Some t \<Rightarrow> if t = [] then [] else [join env packagePath t])
       @ (case typings packageJson of
            None \<Rightarrow> []
          | Some t \<Rightarrow> if t = [] then [] else [join env packagePath t])"

definition findTSConfig :: "Env \<Rightarrow> string \<Rightarrow> PackageJson \<Rightarrow> string option" where
  "findTSConfig env packagePath packageJson =
     List.find (access env) (possiblePaths env packagePath packageJson)"

text \<open>The body of the \<^verbatim>\<open>try\<close> of \<^verbatim>\<open>resolvePackageConfig\<close>, and the function with its \<^verbatim>\<open>catch\<close>.\<close>

definition resolvePackageConfigTry :: "Env \<Rightarrow> string \<Rightarrow> error + TSConfig option" where
  "resolvePackageConfigTry env packagePath =
     (case readFile env (join env packagePath ''package.json'') of
        Inl e \<Rightarrow> Inl e
      | Inr packageJsonContent \<Rightarrow>
          (case parsePackageJson env packageJsonContent of
             Inl e \<Rightarrow> Inl e
           | Inr packageJson \<Rightarrow>
               (case findTSConfig env packagePath packageJson of
                  None \<Rightarrow> Inr None
                | Some tsConfigPath \<Rightarrow>
                    (case readTSConfig env tsConfigPath of
                       Inl e \<Rightarrow> Inl e
                     | Inr config \<Rightarrow> Inr (Some config)))))"

definition resolvePackageConfig :: "Env \<Rightarrow> string \<Rightarrow> TSConfig option" where
  "resolvePackageConfig env packagePath =
     (case resolvePackageConfigTry env packagePath of
        Inl e \<Rightarrow> None
      | Inr config \<Rightarrow> config)"

text \<open>\<^verbatim>\<open>Map.prototype.set\<close> on a map kept in insertion order.\<close>

fun Map_set :: "(string \<times> 'v) list \<Rightarrow> string \<Rightarrow> 'v \<Rightarrow> (string \<times> 'v) list" where
  "Map_set [] k v = [(k, v)]"
| "Map_set ((k', v') # kvs) k v =
     (if k' = k then (k, v) # kvs else (k', v') # Map_set kvs k v)"

type_synonym DependencyConfigs = "(string \<times> TSConfig) list"

text \<open>The loop over the entries of one scope directory; nothing in it throws.\<close>

fun scanScope :: "Env \<Rightarrow> string \<Rightarrow> string \<Rightarrow> Dirent list \<Rightarrow> DependencyConfigs \<Rightarrow> DependencyConfigs" where
  "scanScope env scopePath scope [] dependencyConfigs = dependencyConfigs"
| "scanScope env scopePath scope (scopedEntry # scopedEntries) dependencyConfigs =
     scanScope env scopePath scope scopedEntries
       (if kind scopedEntry = IsDirectory
        then (case resolvePackageConfig env (join env scopePath (name scopedEntry)) of
                None \<Rightarrow> dependencyConfigs
              | Some config \<Rightarrow>
                  Map_set dependencyConfigs (scope @ ''/'' @ name scopedEntry) config)
        else dependencyConfigs)"

text \<open>
  The loop over the entries of the dependency directory, inside the \<^verbatim>\<open>try\<close>. It returns
  the map as it stands when the loop ends, and the error that ended it if one did: the
  only statement of the loop that can throw is the \<^verbatim>\<open>readdir\<close> of a scope directory.
\<close>

fun scanEntries ::
  "Env \<Rightarrow> string \<Rightarrow> Dirent list \<Rightarrow> DependencyConfigs \<Rightarrow> DependencyConfigs \<times> error option" where
  "scanEntries env nodeModulesPath [] dependencyConfigs = (dependencyConfigs, None)"
| "scanEntries env nodeModulesPath (entry # entries) dependencyConfigs =
     (if kind entry = IsDirectory \<and> \<not> startsWith (name entry) ''@''
      then scanEntries env nodeModulesPath entries
             (case resolvePackageConfig env (join env nodeModulesPath (name entry)) of
                None \<Rightarrow> dependencyConfigs
              | Some config \<Rightarrow> Map_set dependencyConfigs (name entry) config)
      else if kind entry = IsDirectory \<and> startsWith (name entry) ''@''
      then (case readdir env (join env nodeModulesPath (name entry)) of
              Inl e \<Rightarrow> (dependencyConfigs, Some e)
            | Inr scopedEntries \<Rightarrow>
                scanEntries env nodeModulesPath entries
                  (scanScope env (join env nodeModulesPath (name entry)) (name entry)
                     scopedEntries dependencyConfigs))
      else scanEntries env nodeModulesPath entries dependencyConfigs)"

text \<open>
  The \<^verbatim>\<open>try\<close> block of \<^verbatim>\<open>scanNodeModules\<close> as a whole, and the function: the \<^verbatim>\<open>catch\<close>
  logs the error and execution goes on to return the map.
\<close>

definition scanNodeModulesTry :: "Env \<Rightarrow> string \<Rightarrow> DependencyConfigs \<times> error option" where
  "scanNodeModulesTry env nodeModulesPath =
     (case readdir env nodeModulesPath of
        Inl e \<Rightarrow> ([], Some e)
      | Inr entries \<Rightarrow> scanEntries env nodeModulesPath entries [])"

definition scanNodeModules :: "Env \<Rightarrow> string \<Rightarrow> error + DependencyConfigs" where
  "scanNodeModules env projectRoot =
     (let nodeModulesPath = join env projectRoot ''node_modules''
      in case scanNodeModulesTry env nodeModulesPath of
           (dependencyConfigs, caught) \<Rightarrow> Inr dependencyConfigs)"

text \<open>
  A project whose dependency directory holds a package with a configuration, then a scope
  directory that cannot be read, then another package.
\<close>

definition brokenScopeEnv :: Env where
  "brokenScopeEnv =
     \<lparr>readdir = (\<lambda>dir.
        if dir = ''proj/node_modules''
        then Inr [\<lparr>name = ''left-pad'', kind = IsDirectory\<rparr>,
                  \<lparr>name = ''@types'', kind = IsDirectory\<rparr>,
                  \<lparr>name = ''zod'', kind = IsDirectory\<rparr>]
        else if dir = ''proj/node_modules/@types'' then Inl (FsError ''EACCES'')
        else Inl (FsError ''ENOENT'')),
      readFile = (\<lambda>p.
        if p = ''proj/node_modules/left-pad/package.json''
             \<or> p = ''proj/node_modules/zod/package.json'' then Inr ''{}''
        else if p = ''proj/node_modules/left-pad/tsconfig.json''
             \<or> p = ''proj/node_modules/zod/tsconfig.json'' then Inr ''base''
        else Inl (FsError ''ENOENT'')),
      access = (\<lambda>p. p = ''proj/node_modules/left-pad/tsconfig.json''
                      \<or> p = ''proj/node_modules/zod/tsconfig.json''),
      parseTSConfig = (\<lambda>content. if content = ''base'' then Inr baseSource else Inl ParseError),
      parsePackageJson = (\<lambda>content. if content = ''{}'' then Inr \<lparr>types = None, typings = None\<rparr>
                                     else Inl ParseError),
      join = (\<lambda>a b. a @ ''/'' @ b)\<rparr>"

section \<open>node-modules-resolver: folding dependency configurations, by value\<close>

text \<open>
  This section gives the configuration that \<^verbatim>\<open>incorporateDependencyConfigs\<close> returns, as a
  value. Which objects the function writes to is the subject of the next section.

  \<^verbatim>\<open>compilerOptions\<close> is a \<^verbatim>\<open>Record<string, any>\<close>, so \<^verbatim>\<open>paths\<close> and \<^verbatim>\<open>types\<close> may hold
  any value. Where JavaScript throws on a value of the wrong shape the model returns
  \<open>TypeError\<close>. Two uses of a wrongly shaped value do not throw and are outside the model
  (\<open>Unmodelled\<close>): a path target that is not a string, which the template literal would
  print, and a project \<^verbatim>\<open>paths\<close> that is an array, which would get a named property.
\<close>

definition truthyOpt :: "json option \<Rightarrow> bool" where
  "truthyOpt v = (case v of None \<Rightarrow> False | Some x \<Rightarrow> truthy x)"

text \<open>\<^verbatim>\<open>(value as string[]).map((p) => `node_modules/${dependencyName}/${p}`)\<close>\<close>

definition prefixTargets :: "string \<Rightarrow> json \<Rightarrow> error + json" where
  "prefixTargets dependencyName value =
     (case value of
        JArr ps \<Rightarrow>
          (case stringsOf ps of
             None \<Rightarrow> Inl Unmodelled
           | Some ss \<Rightarrow>
               Inr (JArr (map (\<lambda>p. JStr (''node_modules/'' @ dependencyName @ ''/'' @ p)) ss)))
      | _ \<Rightarrow> Inl TypeError)"

text \<open>
  \<^verbatim>\<open>paths[key] = targets\<close> for a truthy \<^verbatim>\<open>paths\<close>; the module is strict code, where a
  property cannot be created on a primitive.
\<close>

definition assignPath :: "json \<Rightarrow> string \<Rightarrow> json \<Rightarrow> error + json" where
  "assignPath paths key targets =
     (case paths of
        JObj kvs \<Rightarrow> Inr (JObj (obj_set kvs key targets))
      | JArr xs \<Rightarrow> Inl Unmodelled
      | _ \<Rightarrow> Inl TypeError)"

text \<open>The loop over \<^verbatim>\<open>Object.entries(dependencyConfig.compilerOptions.paths)\<close>.\<close>

fun pathsLoop :: "string \<Rightarrow> (string \<times> json) list \<Rightarrow> json \<Rightarrow> error + json" where
  "pathsLoop dependencyName [] paths = Inr paths"
| "pathsLoop dependencyName ((key, value) # entries) paths =
     (if truthy value
      then (case prefixTargets dependencyName value of
              Inl e \<Rightarrow> Inl e
            | Inr targets \<Rightarrow>
                (case assignPath paths (dependencyName @ ''/'' @ key) targets of
                   Inl e \<Rightarrow> Inl e
                 | Inr paths' \<Rightarrow> pathsLoop dependencyName entries paths'))
      else pathsLoop dependencyName entries paths)"

text \<open>\<^verbatim>\<open>if (!options[key]) options[key] = fresh\<close>, returning the options and the value then held.\<close>

definition ensureOption :: "jobject \<Rightarrow> string \<Rightarrow> json \<Rightarrow> jobject \<times> json" where
  "ensureOption options key fresh =
     (case map_of options key of
        None \<Rightarrow> (obj_set options key fresh, fresh)
      | Some v \<Rightarrow> if truthy v then (options, v) else (obj_set options key fresh, fresh))"

text \<open>The block \<^verbatim>\<open>// Merge paths\<close>, on the options of the updated configuration.\<close>

definition mergePaths :: "string \<Rightarrow> jobject \<Rightarrow> jobject \<Rightarrow> error + jobject" where
  "mergePaths dependencyName dependencyOptions options =
     (case map_of dependencyOptions ''paths'' of
        None \<Rightarrow> Inr options
      | Some dependencyPaths \<Rightarrow>
          if \<not> truthy dependencyPaths then Inr options
          else (case ensureOption options ''paths'' (JObj []) of
                  (options', paths) \<Rightarrow>
                    (case pathsLoop dependencyName (entriesOf dependencyPaths) paths of
                       Inl e \<Rightarrow> Inl e
                     | Inr paths' \<Rightarrow> Inr (obj_set options' ''paths'' paths'))))"

text \<open>The argument list \<^verbatim>\<open>...dependencyConfig.compilerOptions.types\<close>.\<close>

definition spreadArguments :: "json \<Rightarrow> error + json list" where
  "spreadArguments v =
     (case v of
        JArr xs \<Rightarrow> Inr xs
      | JStr s \<Rightarrow> Inr (map (\<lambda>c. JStr [c]) s)
      | _ \<Rightarrow> Inl TypeError)"

text \<open>The block \<^verbatim>\<open>// Merge types\<close>; only an array has \<^verbatim>\<open>push\<close>.\<close>

definition mergeTypes :: "jobject \<Rightarrow> jobject \<Rightarrow> error + jobject" where
  "mergeTypes dependencyOptions options =
     (case map_of dependencyOptions ''types'' of
        None \<Rightarrow> Inr options
      | Some dependencyTypes \<Rightarrow>
          if \<not> truthy dependencyTypes then Inr options
          else (case ensureOption options ''types'' (JArr []) of
                  (options', currentTypes) \<Rightarrow>
                    (case spreadArguments dependencyTypes of
                       Inl e \<Rightarrow> Inl e
                     | Inr items \<Rightarrow>
                         (case currentTypes of
                            JArr ts \<Rightarrow> Inr (obj_set options' ''types'' (JArr (ts @ items)))
                          | _ \<Rightarrow> Inl TypeError))))"

text \<open>The loop over the entries of the map of dependency configurations.\<close>

fun incorporateLoop :: "DependencyConfigs \<Rightarrow> jobject \<Rightarrow> error + jobject" where
  "incorporateLoop [] options = Inr options"
| "incorporateLoop ((dependencyName, dependencyConfig) # dependencyConfigs) options =
     (case compilerOptions dependencyConfig of
        None \<Rightarrow> incorporateLoop dependencyConfigs options
      | Some dependencyOptions \<Rightarrow>
          (case mergePaths dependencyName dependencyOptions options of
             Inl e \<Rightarrow> Inl e
           | Inr options1 \<Rightarrow>
               (case mergeTypes dependencyOptions options1 of
                  Inl e \<Rightarrow> Inl e
                | Inr options2 \<Rightarrow> incorporateLoop dependencyConfigs options2)))"

definition incorporateDependencyConfigs :: "TSConfig \<Rightarrow> DependencyConfigs \<Rightarrow> error + TSConfig" where
  "incorporateDependencyConfigs projectConfig dependencyConfigs =
     (case incorporateLoop dependencyConfigs
             (case compilerOptions projectConfig of None \<Rightarrow> [] | Some options \<Rightarrow> options) of
        Inl e \<Rightarrow> Inl e
      | Inr options \<Rightarrow> Inr (projectConfig\<lparr>compilerOptions := Some options\<rparr>))"

text \<open>
  What the fold claim speaks of. The path mappings and the type list held by a
  \<^verbatim>\<open>compilerOptions\<close> object, absent and falsy values read as empty.
\<close>

definition pathEntries :: "jobject \<Rightarrow> (string \<times> json) list" where
  "pathEntries options = (case map_of options ''paths'' of Some (JObj kvs) \<Rightarrow> kvs | _ \<Rightarrow> [])"

definition typeEntries :: "jobject \<Rightarrow> json list" where
  "typeEntries options = (case map_of options ''types'' of Some (JArr ts) \<Rightarrow> ts | _ \<Rightarrow> [])"

definition optionsOf :: "TSConfig \<Rightarrow> jobject" where
  "optionsOf config = (case compilerOptions config of None \<Rightarrow> [] | Some options \<Rightarrow> options)"

definition pathsOf :: "TSConfig \<Rightarrow> (string \<times> json) list" where
  "pathsOf config = pathEntries (optionsOf config)"

definition typesOf :: "TSConfig \<Rightarrow> json list" where
  "typesOf config = typeEntries (optionsOf config)"

text \<open>
  The shapes the code assumes. In any configuration \<^verbatim>\<open>paths\<close>, if truthy, is an object
  and \<^verbatim>\<open>types\<close>, if truthy, is an array; in a dependency's configuration the object has
  one property per key and its values are arrays of strings.
\<close>

definition shapedOptions :: "jobject \<Rightarrow> bool" where
  "shapedOptions options \<longleftrightarrow>
     (case map_of options ''paths'' of
        None \<Rightarrow> True
      | Some v \<Rightarrow> \<not> truthy v \<or> (\<exists>kvs. v = JObj kvs))
     \<and> (case map_of options ''types'' of
          None \<Rightarrow> True
        | Some v \<Rightarrow> \<not> truthy v \<or> (\<exists>ts. v = JArr ts))"

definition wellShaped :: "TSConfig \<Rightarrow> bool" where
  "wellShaped config \<longleftrightarrow>
     shapedOptions (optionsOf config)
     \<and> distinct (map fst (pathsOf config))
     \<and> list_all (\<lambda>entry. \<exists>ps. snd entry = JArr (map JStr ps)) (pathsOf config)"

text \<open>
  The path entries the dependencies contribute, in the order the loops assign them: each
  key under the name of its dependency, each target under the dependency's installation
  path.
\<close>

definition namespaced :: "string \<Rightarrow> string \<times> json \<Rightarrow> string \<times> json" where
  "namespaced dependencyName entry =
     (dependencyName @ ''/'' @ fst entry,
      (case snd entry of
         JArr ps \<Rightarrow>
           JArr (map (\<lambda>p. case p of
                            JStr s \<Rightarrow> JStr (''node_modules/'' @ dependencyName @ ''/'' @ s)
                          | _ \<Rightarrow> p) ps)
       | v \<Rightarrow> v))"

definition contributions :: "DependencyConfigs \<Rightarrow> (string \<times> json) list" where
  "contributions dependencyConfigs =
     concat (map (\<lambda>(dependencyName, dependencyConfig).
                    map (namespaced dependencyName) (pathsOf dependencyConfig))
               dependencyConfigs)"

text \<open>
  A project with a path mapping and a type of its own and two dependencies; and a project
  whose \<^verbatim>\<open>types\<close> is the string \<^verbatim>\<open>"node"\<close> where an array is expected.
\<close>

definition projectExample :: TSConfig where
  "projectExample =
     emptyConfig\<lparr>compilerOptions :=
       Some [(''paths'', JObj [(''@app/*'', JArr [JStr ''src/*''])]),
             (''types'', JArr [JStr ''node''])]\<rparr>"

definition dependencyExample :: DependencyConfigs where
  "dependencyExample =
     [(''left-pad'',
       emptyConfig\<lparr>compilerOptions :=
         Some [(''paths'', JObj [(''lib/*'', JArr [JStr ''dist/*'', JStr ''src/*''])]),
               (''types'', JArr [JStr ''node'', JStr ''jest''])]\<rparr>),
      (''@types/x'',
       emptyConfig\<lparr>compilerOptions := Some [(''types'', JArr [JStr ''node''])]\<rparr>)]"

definition stringTypesProject :: TSConfig where
  "stringTypesProject = emptyConfig\<lparr>compilerOptions := Some [(''types'', JStr ''node'')]\<rparr>"

section \<open>node-modules-resolver: folding dependency configurations, on the heap\<close>

text \<open>
  To see which objects \<^verbatim>\<open>incorporateDependencyConfigs\<close> writes to, the objects it can write
  to are kept in a store. A cell is an object or an array; a property of an object holds
  either a value or a reference to a cell. The project configuration, its
  \<^verbatim>\<open>compilerOptions\<close>, the \<^verbatim>\<open>paths\<close> object and the \<^verbatim>\<open>types\<close> array are cells. The
  dependency configurations are only read by the function and stay values, and so do the
  arrays of targets, which are assigned whole and never written to.
\<close>

datatype slot = Val json | Ref nat

datatype cell = ObjCell "(string \<times> slot) list" | ArrCell "json list"

type_synonym heap = "cell list"

definition cellAt :: "heap \<Rightarrow> nat \<Rightarrow> cell option" where
  "cellAt h a = (if a < length h then Some (h ! a) else None)"

definition alloc :: "heap \<Rightarrow> cell \<Rightarrow> heap \<times> nat" where
  "alloc h c = (h @ [c], length h)"

text \<open>
  \<^verbatim>\<open>if (!obj[key]) obj[key] = fresh\<close> for the object at \<open>a\<close>, returning the store and the
  cell \<^verbatim>\<open>obj[key]\<close> then refers to. A new cell is allocated only when the property is
  absent or falsy; otherwise the cell already referred to is used.
\<close>

definition ensureCell :: "heap \<Rightarrow> nat \<Rightarrow> string \<Rightarrow> cell \<Rightarrow> error + heap \<times> nat" where
  "ensureCell h a key fresh =
     (case cellAt h a of
        Some (ObjCell props) \<Rightarrow>
          (case map_of props key of
             Some (Ref r) \<Rightarrow> Inr (h, r)
           | Some (Val v) \<Rightarrow>
               if truthy v then Inl Unmodelled
               else (case alloc h fresh of
                       (h', r) \<Rightarrow> Inr (h'[a := ObjCell (obj_set props key (Ref r))], r))
           | None \<Rightarrow>
               (case alloc h fresh of
                  (h', r) \<Rightarrow> Inr (h'[a := ObjCell (obj_set props key (Ref r))], r)))
      | _ \<Rightarrow> Inl Unmodelled)"

text \<open>\<^verbatim>\<open>paths[key] = targets\<close> for the cell \<open>q\<close> that \<^verbatim>\<open>paths\<close> refers to.\<close>

definition assignPathCell :: "heap \<Rightarrow> nat \<Rightarrow> string \<Rightarrow> json \<Rightarrow> error + heap" where
  "assignPathCell h q key targets =
     (case cellAt h q of
        Some (ObjCell props) \<Rightarrow> Inr (h[q := ObjCell (obj_set props key (Val targets))])
      | _ \<Rightarrow> Inl Unmodelled)"

fun pathsLoopCell :: "string \<Rightarrow> (string \<times> json) list \<Rightarrow> heap \<Rightarrow> nat \<Rightarrow> error + heap" where
  "pathsLoopCell dependencyName [] h q = Inr h"
| "pathsLoopCell dependencyName ((key, value) # entries) h q =
     (if truthy value
      then (case prefixTargets dependencyName value of
              Inl e \<Rightarrow> Inl e
            | Inr targets \<Rightarrow>
                (case assignPathCell h q (dependencyName @ ''/'' @ key) targets of
                   Inl e \<Rightarrow> Inl e
                 | Inr h' \<Rightarrow> pathsLoopCell dependencyName entries h' q))
      else pathsLoopCell dependencyName entries h q)"

text \<open>The two blocks of the loop body, for the \<^verbatim>\<open>compilerOptions\<close> cell \<open>c\<close>.\<close>

definition mergePathsCell :: "string \<Rightarrow> jobject \<Rightarrow> heap \<Rightarrow> nat \<Rightarrow> error + heap" where
  "mergePathsCell dependencyName dependencyOptions h c =
     (case map_of dependencyOptions ''paths'' of
        None \<Rightarrow> Inr h
      | Some dependencyPaths \<Rightarrow>
          if \<not> truthy dependencyPaths then Inr h
          else (case ensureCell h c ''paths'' (ObjCell []) of
                  Inl e \<Rightarrow> Inl e
                | Inr (h', q) \<Rightarrow> pathsLoopCell dependencyName (entriesOf dependencyPaths) h' q))"

definition mergeTypesCell :: "jobject \<Rightarrow> heap \<Rightarrow> nat \<Rightarrow> error + heap" where
  "mergeTypesCell dependencyOptions h c =
     (case map_of dependencyOptions ''types'' of
        None \<Rightarrow> Inr h
      | Some dependencyTypes \<Rightarrow>
          if \<not> truthy dependencyTypes then Inr h
          else (case ensureCell h c ''types'' (ArrCell []) of
                  Inl e \<Rightarrow> Inl e
                | Inr (h', t) \<Rightarrow>
                    (case spreadArguments dependencyTypes of
                       Inl e \<Rightarrow> Inl e
                     | Inr items \<Rightarrow>
                         (case cellAt h' t of
                            Some (ArrCell ts) \<Rightarrow> Inr (h'[t := ArrCell (ts @ items)])
                          | Some (ObjCell props) \<Rightarrow> Inl TypeError
                          | None \<Rightarrow> Inl Unmodelled))))"

fun incorporateLoopCell :: "DependencyConfigs \<Rightarrow> heap \<Rightarrow> nat \<Rightarrow> error + heap" where
  "incorporateLoopCell [] h c = Inr h"
| "incorporateLoopCell ((dependencyName, dependencyConfig) # dependencyConfigs) h c =
     (case compilerOptions dependencyConfig of
        None \<Rightarrow> incorporateLoopCell dependencyConfigs h c
      | Some dependencyOptions \<Rightarrow>
          (case mergePathsCell dependencyName dependencyOptions h c of
             Inl e \<Rightarrow> Inl e
           | Inr h1 \<Rightarrow>
               (case mergeTypesCell dependencyOptions h1 c of
                  Inl e \<Rightarrow> Inl e
                | Inr h2 \<Rightarrow> incorporateLoopCell dependencyConfigs h2 c)))"

text \<open>
  The function on the store: \<^verbatim>\<open>{ ...projectConfig }\<close> allocates a new object with the
  properties of the old one, references included; the store and the new object are
  returned.
\<close>

definition incorporateOnHeap :: "heap \<Rightarrow> nat \<Rightarrow> DependencyConfigs \<Rightarrow> error + heap \<times> nat" where
  "incorporateOnHeap h projectConfig dependencyConfigs =
     (case cellAt h projectConfig of
        Some (ObjCell props) \<Rightarrow>
          (case alloc h (ObjCell props) of
             (h1, updatedConfig) \<Rightarrow>
               (case ensureCell h1 updatedConfig ''compilerOptions'' (ObjCell []) of
                  Inl e \<Rightarrow> Inl e
                | Inr (h2, c) \<Rightarrow>
                    (case incorporateLoopCell dependencyConfigs h2 c of
                       Inl e \<Rightarrow> Inl e
                     | Inr h3 \<Rightarrow> Inr (h3, updatedConfig))))
      | _ \<Rightarrow> Inl Unmodelled)"

text \<open>
  Reading the \<^verbatim>\<open>compilerOptions\<close> of the configuration at an address back as a value:
  a property that refers to an array is the array, one that refers to an object of values
  is that object.
\<close>

fun slotValues :: "(string \<times> slot) list \<Rightarrow> jobject option" where
  "slotValues [] = Some []"
| "slotValues ((k, Val v) # props) =
     (case slotValues props of None \<Rightarrow> None | Some kvs \<Rightarrow> Some ((k, v) # kvs))"
| "slotValues ((k, Ref r) # props) = None"

definition slotValue :: "heap \<Rightarrow> slot \<Rightarrow> json option" where
  "slotValue h s =
     (case s of
        Val v \<Rightarrow> Some v
      | Ref r \<Rightarrow>
          (case cellAt h r of
             Some (ArrCell xs) \<Rightarrow> Some (JArr xs)
           | Some (ObjCell props) \<Rightarrow> map_option JObj (slotValues props)
           | None \<Rightarrow> None))"

fun readProperties :: "heap \<Rightarrow> (string \<times> slot) list \<Rightarrow> jobject option" where
  "readProperties h [] = Some []"
| "readProperties h ((k, s) # props) =
     (case slotValue h s of
        None \<Rightarrow> None
      | Some v \<Rightarrow>
          (case readProperties h props of None \<Rightarrow> None | Some kvs \<Rightarrow> Some ((k, v) # kvs)))"

definition compilerOptionsAt :: "heap \<Rightarrow> nat \<Rightarrow> jobject option" where
  "compilerOptionsAt h config =
     (case cellAt h config of
        Some (ObjCell props) \<Rightarrow>
          (case map_of props ''compilerOptions'' of
             Some (Ref c) \<Rightarrow>
               (case cellAt h c of
                  Some (ObjCell options) \<Rightarrow> readProperties h options
                | _ \<Rightarrow> None)
           | _ \<Rightarrow> None)
      | _ \<Rightarrow> None)"

text \<open>
  The store that holds \<^verbatim>\<open>{compilerOptions: {types: ["node"]}}\<close>: the array at 0, the
  options at 1 and the configuration at 2; and one dependency that declares a type.
\<close>

definition sharedHeap :: heap where
  "sharedHeap =
     [ArrCell [JStr ''node''],
      ObjCell [(''types'', Ref 0)],
      ObjCell [(''compilerOptions'', Ref 1)]]"

definition jestDependency :: DependencyConfigs where
  "jestDependency =
     [(''dep'', emptyConfig\<lparr>compilerOptions := Some [(''types'', JArr [JStr ''jest''])]\<rparr>)]"

section \<open>Package names\<close>

text \<open>
  The names \<^verbatim>\<open>scanNodeModules\<close> gives to dependencies: the name of a directory that does not
  start with \<^verbatim>\<open>@\<close>, or \<^verbatim>\<open>@scope/name\<close> for a directory inside a scope directory. A
  directory entry has a non-empty name without a separator.
\<close>

definition packageName :: "string \<Rightarrow> bool" where
  "packageName n \<longleftrightarrow>
     (if startsWith n ''@'' then length (filter (\<lambda>c. c = CHR ''/'') n) = 1
      else n \<noteq> [] \<and> CHR ''/'' \<notin> set n)"

definition entryNames :: "Env \<Rightarrow> bool" where
  "entryNames env \<longleftrightarrow>
     (\<forall>dir entries. readdir env dir = Inr entries \<longrightarrow>
        list_all (\<lambda>entry. name entry \<noteq> [] \<and> CHR ''/'' \<notin> set (name entry)) entries)"

text \<open>A map of dependency configurations whose keys are package names, each once.\<close>

definition namedMap :: "DependencyConfigs \<Rightarrow> bool" where
  "namedMap deps \<longleftrightarrow> distinct (map fst deps) \<and> list_all (\<lambda>d. packageName (fst d)) deps"

text \<open>
  A project with a plain dependency and a scoped one, each with a configuration that
  declares a path mapping.
\<close>

definition mappedSource :: TSConfig where
  "mappedSource =
     emptyConfig\<lparr>compilerOptions := Some [(''paths'', JObj [(''lib/*'', JArr [JStr ''dist/*''])])]\<rparr>"

definition scopedEnv :: Env where
  "scopedEnv =
     \<lparr>readdir = (\<lambda>dir.
        if dir = ''proj/node_modules''
        then Inr [\<lparr>name = ''left-pad'', kind = IsDirectory\<rparr>,
                  \<lparr>name = ''.bin'', kind = IsOther\<rparr>,
                  \<lparr>name = ''@types'', kind = IsDirectory\<rparr>]
        else if dir = ''proj/node_modules/@types''
        then Inr [\<lparr>name = ''node'', kind = IsDirectory\<rparr>]
        else Inl (FsError ''ENOENT'')),
      readFile = (\<lambda>p.
        if p = ''proj/node_modules/left-pad/package.json''
             \<or> p = ''proj/node_modules/@types/node/package.json'' then Inr ''{}''
        else if p = ''proj/node_modules/left-pad/tsconfig.json''
             \<or> p = ''proj/node_modules/@types/node/tsconfig.json'' then Inr ''mapped''
        else Inl (FsError ''ENOENT'')),
      access = (\<lambda>p. p = ''proj/node_modules/left-pad/tsconfig.json''
                      \<or> p = ''proj/node_modules/@types/node/tsconfig.json''),
      parseTSConfig = (\<lambda>content. if content = ''mapped'' then Inr mappedSource else Inl ParseError),
      parsePackageJson = (\<lambda>content. if content = ''{}'' then Inr \<lparr>types = None, typings = None\<rparr>
                                     else Inl ParseError),
      join = (\<lambda>a b. a @ ''/'' @ b)\<rparr>"

chapter \<open>Properties\<close>

section \<open>Priority selection: the front of the selected list\<close>

lemma configPriority_simps:
  "configPriority ''tsconfig.json'' = Some 0"
  "configPriority ''tsconfig.app.json'' = Some 1"
  "configPriority ''tsconfig.node.json'' = Some 2"
  "configPriority ''jsconfig.json'' = Some 3"
  by (simp_all add: configPriority_def CONFIG_FILE_NAMES_def upt_rec)

lemma configPriority_known:
  "basename f \<in> set CONFIG_FILE_NAMES \<Longrightarrow> \<exists>i. configPriority (basename f) = Some i"
  by (auto simp: CONFIG_FILE_NAMES_def configPriority_simps)

lemma priority_known:
  "configPriority (basename f) = Some i \<Longrightarrow> priority f = enat i"
  by (simp add: priority_def)

lemma relevantStep_first:
  "relevantStep [] f = [f]"
  by (simp add: relevantStep_def)

lemma relevantStep_cons:
  assumes "configPriority (basename r) = Some v"
  shows "relevantStep (r # rs) f =
           (if priority f < enat v then f # r # rs else (r # rs) @ [f])"
  using assms by (simp add: relevantStep_def)

lemma frontInv_first: "frontInv [f] [f]"
  by (simp add: frontInv_def)

lemma frontInv_step:
  assumes inv: "frontInv seen rs"
    and known: "\<forall>f \<in> set seen. basename f \<in> set CONFIG_FILE_NAMES"
  shows "frontInv (seen @ [f]) (relevantStep rs f)"
proof -
  from inv obtain r rest where rs: "rs = r # rest"
    by (cases rs) (auto simp: frontInv_def)
  from inv rs obtain i where i: "i < length seen" "r = seen ! i"
    and least: "\<forall>j < length seen. priority (seen ! i) \<le> priority (seen ! j)"
    and first: "\<forall>j < i. priority (seen ! i) < priority (seen ! j)"
    by (auto simp: frontInv_def)
  from i known have "basename r \<in> set CONFIG_FILE_NAMES" by auto
  then obtain v where v: "configPriority (basename r) = Some v"
    using configPriority_known by blast
  then have pr: "priority r = enat v" by (rule priority_known)
  show ?thesis
  proof (cases "priority f < enat v")
    case True
    then have step: "relevantStep rs f = f # r # rest"
      using rs v by (simp add: relevantStep_cons)
    have "\<forall>j < length (seen @ [f]). priority f \<le> priority ((seen @ [f]) ! j)"
    proof (intro allI impI)
      fix j assume "j < length (seen @ [f])"
      then consider "j < length seen" | "j = length seen" by fastforce
      then show "priority f \<le> priority ((seen @ [f]) ! j)"
      proof cases
        case 1
        then have "priority (seen ! i) \<le> priority (seen ! j)" using least by blast
        with True pr i 1 show ?thesis by (simp add: nth_append)
      next
        case 2
        then show ?thesis by (simp add: nth_append)
      qed
    qed
    moreover have "\<forall>j < length seen. priority f < priority ((seen @ [f]) ! j)"
    proof (intro allI impI)
      fix j assume j: "j < length seen"
      then have "priority (seen ! i) \<le> priority (seen ! j)" using least by blast
      with True pr i j show "priority f < priority ((seen @ [f]) ! j)"
        by (simp add: nth_append)
    qed
    ultimately show ?thesis
      unfolding frontInv_def step
      by (intro conjI exI[of _ "length seen"]) (simp_all add: nth_append)
  next
    case False
    then have step: "relevantStep rs f = (r # rest) @ [f]"
      using rs v by (simp add: relevantStep_cons)
    have "\<forall>j < length (seen @ [f]). priority (seen ! i) \<le> priority ((seen @ [f]) ! j)"
    proof (intro allI impI)
      fix j assume "j < length (seen @ [f])"
      then consider "j < length seen" | "j = length seen" by fastforce
      then show "priority (seen ! i) \<le> priority ((seen @ [f]) ! j)"
      proof cases
        case 1
        then show ?thesis using least by (simp add: nth_append)
      next
        case 2
        then show ?thesis using False pr i by (simp add: nth_append)
      qed
    qed
    then show ?thesis
      unfolding frontInv_def step using i first
      by (intro conjI exI[of _ i]) (simp_all add: nth_append)
  qed
qed

lemma relevantLoop_frontInv:
  assumes "frontInv seen rs"
    and "\<forall>f \<in> set (seen @ todo). basename f \<in> set CONFIG_FILE_NAMES"
  shows "frontInv (seen @ todo) (relevantLoop rs todo)"
  using assms
proof (induction todo arbitrary: seen rs)
  case Nil
  then show ?case by simp
next
  case (Cons f todo)
  have "frontInv (seen @ [f]) (relevantStep rs f)"
    using Cons.prems by (intro frontInv_step) auto
  then have "frontInv ((seen @ [f]) @ todo) (relevantLoop (relevantStep rs f) todo)"
    using Cons.prems by (intro Cons.IH) auto
  then show ?case by simp
qed

lemma relevantStep_mset: "mset (relevantStep rs f) = add_mset f (mset rs)"
  by (simp add: relevantStep_def Let_def)

lemma relevantLoop_mset: "mset (relevantLoop rs todo) = mset rs + mset todo"
  by (induction todo arbitrary: rs) (simp_all add: relevantStep_mset)

text \<open>
  Claim C1. For a non-empty list of discovered paths whose basenames are all in the ranking
  list, the list returned by \<open>determineRelevantConfigs\<close> is a rearrangement of the input
  whose first element is an input path of the least rank number, namely the
  earliest-discovered one of that rank (everything discovered before it has a strictly
  larger rank number). The selection is the front-insert-or-append loop and not a stable
  sort by rank: on the discovery order tsconfig.app.json, jsconfig.json, tsconfig.node.json
  it returns the input order, where the sort would put tsconfig.node.json second.
\<close>

theorem determineRelevantConfigs_front:
  assumes "configFiles \<noteq> []"
    and "\<forall>f \<in> set configFiles. basename f \<in> set CONFIG_FILE_NAMES"
  shows "determineRelevantConfigs configFiles \<noteq> []
       \<and> mset (determineRelevantConfigs configFiles) = mset configFiles
       \<and> (\<exists>i < length configFiles.
             hd (determineRelevantConfigs configFiles) = configFiles ! i
           \<and> (\<forall>j < length configFiles. priority (configFiles ! i) \<le> priority (configFiles ! j))
           \<and> (\<forall>j < i. priority (configFiles ! i) < priority (configFiles ! j)))
       \<and> determineRelevantConfigs [''tsconfig.app.json'', ''jsconfig.json'', ''tsconfig.node.json'']
           = [''tsconfig.app.json'', ''jsconfig.json'', ''tsconfig.node.json'']
       \<and> stableSortByRank [''tsconfig.app.json'', ''jsconfig.json'', ''tsconfig.node.json'']
           = [''tsconfig.app.json'', ''tsconfig.node.json'', ''jsconfig.json'']"
proof -
  from assms(1) obtain f todo where cf: "configFiles = f # todo"
    by (cases configFiles) auto
  have "frontInv ([f] @ todo) (relevantLoop [f] todo)"
    using assms(2) cf by (intro relevantLoop_frontInv frontInv_first) simp
  then have inv: "frontInv configFiles (determineRelevantConfigs configFiles)"
    by (simp add: determineRelevantConfigs_def cf relevantStep_first)
  have perm: "mset (determineRelevantConfigs configFiles) = mset configFiles"
    by (simp add: determineRelevantConfigs_def relevantLoop_mset)
  have run: "determineRelevantConfigs [''tsconfig.app.json'', ''jsconfig.json'', ''tsconfig.node.json'']
           = [''tsconfig.app.json'', ''jsconfig.json'', ''tsconfig.node.json'']"
    by (simp add: determineRelevantConfigs_def relevantStep_def priority_def basename_def
        configPriority_simps)
  have srt: "stableSortByRank [''tsconfig.app.json'', ''jsconfig.json'', ''tsconfig.node.json'']
           = [''tsconfig.app.json'', ''tsconfig.node.json'', ''jsconfig.json'']"
    by (simp add: stableSortByRank_def priority_def basename_def configPriority_simps)
  from inv perm run srt show ?thesis
    unfolding frontInv_def by blast
qed

theorem determineRelevantConfigs_front_witness:
  "determineRelevantConfigs
       [''/p/jsconfig.json'', ''/p/a/tsconfig.app.json'', ''/p/b/tsconfig.app.json''] \<noteq> []
   \<and> hd (determineRelevantConfigs
         [''/p/jsconfig.json'', ''/p/a/tsconfig.app.json'', ''/p/b/tsconfig.app.json''])
     = ''/p/a/tsconfig.app.json''"
proof -
  let ?cfs = "[''/p/jsconfig.json'', ''/p/a/tsconfig.app.json'', ''/p/b/tsconfig.app.json'']"
  have ne: "?cfs \<noteq> []" by simp
  have known: "\<forall>f \<in> set ?cfs. basename f \<in> set CONFIG_FILE_NAMES"
    by (simp add: basename_def CONFIG_FILE_NAMES_def)
  have nonempty: "determineRelevantConfigs ?cfs \<noteq> []"
    by (rule determineRelevantConfigs_front [OF ne known, THEN conjunct1])
  have front: "hd (determineRelevantConfigs ?cfs) = ''/p/a/tsconfig.app.json''"
    by (simp add: determineRelevantConfigs_def relevantStep_def priority_def basename_def
        configPriority_simps)
  from nonempty front show ?thesis by (rule conjI)
qed

section \<open>Merge: precedence, array union and the prototype\<close>

lemma map_of_obj_set: "map_of (obj_set kvs k v) = (map_of kvs)(k \<mapsto> v)"
  by (induction kvs) auto

lemma map_of_fold_obj_set:
  "distinct (map fst b) \<Longrightarrow>
   map_of (fold (\<lambda>(k, v) acc. obj_set acc k v) b a) = map_of a ++ map_of b"
proof (induction b arbitrary: a)
  case Nil
  then show ?case by simp
next
  case (Cons kv b)
  obtain k v where kv: "kv = (k, v)" by (cases kv)
  from Cons.prems kv have fresh: "k \<notin> dom (map_of b)" and d: "distinct (map fst b)"
    by (auto simp: dom_map_of_conv_image_fst)
  have "map_of (fold (\<lambda>(k, v) acc. obj_set acc k v) (kv # b) a)
          = map_of (obj_set a k v) ++ map_of b"
    using Cons.IH [OF d] kv by simp
  also have "\<dots> = map_of a ++ map_of (kv # b)"
    using fresh kv by (auto simp: map_of_obj_set map_add_def fun_eq_iff split: option.splits)
  finally show ?case .
qed

lemma map_of_spread:
  "distinct (map fst b) \<Longrightarrow>
   map_of (spread a b) k =
     (case map_of b k of Some v \<Rightarrow> Some v
      | None \<Rightarrow> (case a of None \<Rightarrow> None | Some kvs \<Rightarrow> map_of kvs k))"
  by (simp add: spread_def map_of_fold_obj_set map_add_def split: option.splits)

lemma fold_guarded_obj_set:
  "fold (\<lambda>(key, value) acc. if P key then obj_set acc key value else acc) b a
     = fold (\<lambda>(k, v) acc. obj_set acc k v) (filter (\<lambda>kv. P (fst kv)) b) a"
  by (induction b arbitrary: a) (auto split: prod.splits)

lemma map_of_filter_key:
  "map_of (filter (\<lambda>kv. P (fst kv)) b) k = (if P k then map_of b k else None)"
  by (induction b) auto

lemma firstSet_append:
  "firstSet (xs @ ys) = (case firstSet xs of Some v \<Rightarrow> Some v | None \<Rightarrow> firstSet ys)"
  by (induction xs rule: firstSet.induct) simp_all

lemma inherited_ObjectPrototype: "inherited ObjectPrototype k = None"
  by (simp add: inherited_def)

lemma mergeArray_plain:
  "mergeArray a None c = Inr (case c of None \<Rightarrow> a | Some xs \<Rightarrow> Some (arrayOf a @ xs))"
  by (simp add: mergeArray_def arrayOf_def split: option.splits)

lemma fold_assign_plain:
  "map_of kvs ''__proto__'' = None \<Longrightarrow>
   fold (\<lambda>(key, v) m. if key \<notin> set RESERVED then assign m key v else m) kvs m
     = m\<lparr>own := (own m)\<lparr>others :=
           fold (\<lambda>(key, v) acc. if key \<notin> set RESERVED then obj_set acc key v else acc)
             kvs (others (own m))\<rparr>\<rparr>"
proof (induction kvs arbitrary: m)
  case Nil
  then show ?case by simp
next
  case (Cons kv kvs)
  obtain key v where kv: "kv = (key, v)" by (cases kv)
  from Cons.prems kv have key: "key \<noteq> ''__proto__''" and rest: "map_of kvs ''__proto__'' = None"
    by (auto split: if_splits)
  show ?case
    using key by (simp add: kv Cons.IH [OF rest] assign_def)
qed

text \<open>
  The loop body on a source without a \<^verbatim>\<open>__proto__\<close> property, when the prototype of
  \<^verbatim>\<open>mergedConfig\<close> is still \<^verbatim>\<open>Object.prototype\<close>: it does not fail, leaves the prototype
  alone, and only the own properties change.
\<close>

lemma mergeStep_plain:
  assumes "prototype m = ObjectPrototype" and "plainSource c"
  shows "mergeStep m c =
     Inr (m\<lparr>own := (own m)
       \<lparr>compilerOptions :=
          (case compilerOptions c of
             None \<Rightarrow> compilerOptions (own m)
           | Some co \<Rightarrow> Some (spread (compilerOptions (own m)) co)),
        include := (case include c of None \<Rightarrow> include (own m)
                    | Some xs \<Rightarrow> Some (arrayOf (include (own m)) @ xs)),
        exclude := (case exclude c of None \<Rightarrow> exclude (own m)
                    | Some xs \<Rightarrow> Some (arrayOf (exclude (own m)) @ xs)),
        files := (case files c of None \<Rightarrow> files (own m)
                  | Some xs \<Rightarrow> Some (arrayOf (files (own m)) @ xs)),
        others :=
          fold (\<lambda>(key, v) acc. if key \<notin> set RESERVED then obj_set acc key v else acc)
            (others c) (others (own m))\<rparr>\<rparr>)"
proof -
  have cur: "currentOptions m = compilerOptions (own m)"
    using assms(1) by (simp add: currentOptions_def inherited_def split: option.splits)
  from assms(2) have plain: "map_of (others c) ''__proto__'' = None"
    by (simp add: plainSource_def)
  show ?thesis
    by (cases "compilerOptions c")
       (simp_all add: mergeStep_def Let_def assms(1) inherited_ObjectPrototype mergeArray_plain
          cur fold_assign_plain [OF plain])
qed

lemma mergeStep_plain_prototype:
  assumes "prototype m = ObjectPrototype" and "plainSource c" and "mergeStep m c = Inr m'"
  shows "prototype m' = ObjectPrototype"
  using assms(3) assms(1) unfolding mergeStep_plain [OF assms(1,2)] by auto

lemma optionOf_mergeStep:
  assumes "prototype m = ObjectPrototype" and "plainSource c" and "wfConfig c"
    and "mergeStep m c = Inr m'"
  shows "optionOf (own m') k =
           (case optionOf c k of Some v \<Rightarrow> Some v | None \<Rightarrow> optionOf (own m) k)"
proof (cases "compilerOptions c")
  case None
  then show ?thesis
    using assms(4) unfolding mergeStep_plain [OF assms(1,2)] by (auto simp: optionOf_def)
next
  case (Some co)
  with assms(3) have "distinct (map fst co)" by (simp add: wfConfig_def)
  then show ?thesis
    using Some assms(4) unfolding mergeStep_plain [OF assms(1,2)]
    by (auto simp: optionOf_def map_of_spread split: option.splits)
qed

lemma others_mergeStep:
  assumes "prototype m = ObjectPrototype" and "plainSource c" and "wfConfig c"
    and "mergeStep m c = Inr m'"
  shows "map_of (others (own m')) k =
           (case (if k \<notin> set RESERVED then map_of (others c) k else None) of
              Some v \<Rightarrow> Some v
            | None \<Rightarrow> map_of (others (own m)) k)"
proof -
  let ?kept = "filter (\<lambda>kv. fst kv \<notin> set RESERVED) (others c)"
  from assms(3) have "distinct (map fst ?kept)"
    by (simp add: wfConfig_def distinct_map_filter)
  then have "map_of (fold (\<lambda>(k, v) acc. obj_set acc k v) ?kept (others (own m)))
               = map_of (others (own m)) ++ map_of ?kept"
    by (rule map_of_fold_obj_set)
  moreover have "others (own m') = fold (\<lambda>(k, v) acc. obj_set acc k v) ?kept (others (own m))"
    using assms(4) unfolding mergeStep_plain [OF assms(1,2)]
    by (auto simp: fold_guarded_obj_set)
  moreover have "map_of ?kept k = (if k \<notin> set RESERVED then map_of (others c) k else None)"
    by (rule map_of_filter_key)
  ultimately show ?thesis
    by (simp only: map_add_def split: option.splits)
qed

lemma arrays_mergeStep:
  assumes "prototype m = ObjectPrototype" and "plainSource c" and "mergeStep m c = Inr m'"
  shows "arrayOf (include (own m')) = arrayOf (include (own m)) @ arrayOf (include c)"
    and "arrayOf (exclude (own m')) = arrayOf (exclude (own m)) @ arrayOf (exclude c)"
    and "arrayOf (files (own m')) = arrayOf (files (own m)) @ arrayOf (files c)"
    and "include (own m') = None \<longleftrightarrow> include (own m) = None \<and> include c = None"
    and "exclude (own m') = None \<longleftrightarrow> exclude (own m) = None \<and> exclude c = None"
    and "files (own m') = None \<longleftrightarrow> files (own m) = None \<and> files c = None"
  using assms(3) unfolding mergeStep_plain [OF assms(1,2)]
  by (auto simp: arrayOf_def split: option.splits)

lemma mergeLoop_plain_returns:
  assumes "prototype m = ObjectPrototype" and "\<forall>c \<in> set cs. plainSource c"
  shows "\<exists>m'. mergeLoop m cs = Inr m' \<and> prototype m' = ObjectPrototype"
  using assms
proof (induction cs arbitrary: m)
  case Nil
  then show ?case by simp
next
  case (Cons c cs)
  then have c: "plainSource c" and rest: "\<forall>c \<in> set cs. plainSource c" by simp_all
  from mergeStep_plain [OF Cons.prems(1) c] obtain m1 where s: "mergeStep m c = Inr m1"
    by blast
  from mergeStep_plain_prototype [OF Cons.prems(1) c s] have "prototype m1 = ObjectPrototype" .
  from Cons.IH [OF this rest] show ?case by (simp add: s)
qed

lemma optionOf_mergeLoop:
  assumes "prototype m = ObjectPrototype" and "\<forall>c \<in> set cs. plainSource c \<and> wfConfig c"
    and "mergeLoop m cs = Inr m'"
  shows "optionOf (own m') k =
           (case firstSet (map (\<lambda>c. optionOf c k) (rev cs)) of
              Some v \<Rightarrow> Some v
            | None \<Rightarrow> optionOf (own m) k)"
  using assms
proof (induction cs arbitrary: m)
  case Nil
  then show ?case by simp
next
  case (Cons c cs)
  then have c: "plainSource c" "wfConfig c"
    and rest: "\<forall>c \<in> set cs. plainSource c \<and> wfConfig c" by simp_all
  from mergeStep_plain [OF Cons.prems(1) c(1)] obtain m1 where s: "mergeStep m c = Inr m1"
    by blast
  have p: "prototype m1 = ObjectPrototype"
    by (rule mergeStep_plain_prototype [OF Cons.prems(1) c(1) s])
  from Cons.prems(3) s have run: "mergeLoop m1 cs = Inr m'" by simp
  show ?case
    using Cons.IH [OF p rest run] optionOf_mergeStep [OF Cons.prems(1) c s, of k]
    by (simp add: firstSet_append split: option.splits)
qed

lemma others_mergeLoop:
  assumes "prototype m = ObjectPrototype" and "\<forall>c \<in> set cs. plainSource c \<and> wfConfig c"
    and "mergeLoop m cs = Inr m'" and "k \<notin> set RESERVED"
  shows "map_of (others (own m')) k =
           (case firstSet (map (\<lambda>c. map_of (others c) k) (rev cs)) of
              Some v \<Rightarrow> Some v
            | None \<Rightarrow> map_of (others (own m)) k)"
  using assms
proof (induction cs arbitrary: m)
  case Nil
  then show ?case by simp
next
  case (Cons c cs)
  then have c: "plainSource c" "wfConfig c"
    and rest: "\<forall>c \<in> set cs. plainSource c \<and> wfConfig c" by simp_all
  from mergeStep_plain [OF Cons.prems(1) c(1)] obtain m1 where s: "mergeStep m c = Inr m1"
    by blast
  have p: "prototype m1 = ObjectPrototype"
    by (rule mergeStep_plain_prototype [OF Cons.prems(1) c(1) s])
  from Cons.prems(3) s have run: "mergeLoop m1 cs = Inr m'" by simp
  show ?case
    using Cons.IH [OF p rest run Cons.prems(4)] others_mergeStep [OF Cons.prems(1) c s, of k]
      Cons.prems(4)
    by (simp add: firstSet_append split: option.splits)
qed

lemma arrays_mergeLoop:
  assumes "prototype m = ObjectPrototype" and "\<forall>c \<in> set cs. plainSource c"
    and "mergeLoop m cs = Inr m'"
  shows "arrayOf (include (own m')) = arrayOf (include (own m)) @ concat (map (\<lambda>c. arrayOf (include c)) cs)
       \<and> arrayOf (exclude (own m')) = arrayOf (exclude (own m)) @ concat (map (\<lambda>c. arrayOf (exclude c)) cs)
       \<and> arrayOf (files (own m')) = arrayOf (files (own m)) @ concat (map (\<lambda>c. arrayOf (files c)) cs)
       \<and> (include (own m') = None \<longleftrightarrow> include (own m) = None \<and> list_all (\<lambda>c. include c = None) cs)
       \<and> (exclude (own m') = None \<longleftrightarrow> exclude (own m) = None \<and> list_all (\<lambda>c. exclude c = None) cs)
       \<and> (files (own m') = None \<longleftrightarrow> files (own m) = None \<and> list_all (\<lambda>c. files c = None) cs)"
  using assms
proof (induction cs arbitrary: m)
  case Nil
  then show ?case by simp
next
  case (Cons c cs)
  then have c: "plainSource c" and rest: "\<forall>c \<in> set cs. plainSource c" by simp_all
  from mergeStep_plain [OF Cons.prems(1) c] obtain m1 where s: "mergeStep m c = Inr m1"
    by blast
  have p: "prototype m1 = ObjectPrototype"
    by (rule mergeStep_plain_prototype [OF Cons.prems(1) c s])
  from Cons.prems(3) s have run: "mergeLoop m1 cs = Inr m'" by simp
  show ?case
    using Cons.IH [OF p rest run] arrays_mergeStep [OF Cons.prems(1) c s]
    by simp
qed

lemma mset_concat_rev_arrays:
  "mset (concat (map (\<lambda>c. arrayOf (fld c)) (rev cs))) = (\<Sum>c\<leftarrow>cs. mset (arrayOf (fld c)))"
  by (induction cs) (simp_all add: ac_simps)

text \<open>
  The merge of sources none of which has a \<^verbatim>\<open>__proto__\<close> property. It returns an object
  whose prototype is \<^verbatim>\<open>Object.prototype\<close>. For every key of \<^verbatim>\<open>compilerOptions\<close>, and for
  every top-level key outside the reserved list, the merged object holds the value of the
  front-most source that sets the key, and none when no source sets it. Each of
  \<^verbatim>\<open>include\<close>, \<^verbatim>\<open>exclude\<close> and \<^verbatim>\<open>files\<close> is the concatenation of the sources' arrays in
  processing order, so as a multiset the sum of the sources' arrays, and is absent
  exactly when no source declares it.
\<close>

theorem mergeConfigs_plain_sources:
  assumes "readConfigs env configPaths = Inr configs"
    and "\<forall>c \<in> set configs. plainSource c \<and> wfConfig c"
  shows "\<exists>merged. mergeConfigs env configPaths = Inr merged
       \<and> prototype merged = ObjectPrototype
       \<and> (\<forall>k. optionOf (own merged) k = firstSet (map (\<lambda>c. optionOf c k) configs))
       \<and> (\<forall>k. k \<notin> set RESERVED \<longrightarrow>
             map_of (others (own merged)) k = firstSet (map (\<lambda>c. map_of (others c) k) configs))
       \<and> arrayOf (include (own merged)) = concat (map (\<lambda>c. arrayOf (include c)) (rev configs))
       \<and> arrayOf (exclude (own merged)) = concat (map (\<lambda>c. arrayOf (exclude c)) (rev configs))
       \<and> arrayOf (files (own merged)) = concat (map (\<lambda>c. arrayOf (files c)) (rev configs))
       \<and> mset (arrayOf (include (own merged))) = (\<Sum>c\<leftarrow>configs. mset (arrayOf (include c)))
       \<and> mset (arrayOf (exclude (own merged))) = (\<Sum>c\<leftarrow>configs. mset (arrayOf (exclude c)))
       \<and> mset (arrayOf (files (own merged))) = (\<Sum>c\<leftarrow>configs. mset (arrayOf (files c)))
       \<and> (include (own merged) = None \<longleftrightarrow> list_all (\<lambda>c. include c = None) configs)
       \<and> (exclude (own merged) = None \<longleftrightarrow> list_all (\<lambda>c. exclude c = None) configs)
       \<and> (files (own merged) = None \<longleftrightarrow> list_all (\<lambda>c. files c = None) configs)"
proof -
  let ?start = "\<lparr>own = emptyConfig, prototype = ObjectPrototype\<rparr>"
  have p: "prototype ?start = ObjectPrototype" by simp
  have plain: "\<forall>c \<in> set (rev configs). plainSource c"
    and wf: "\<forall>c \<in> set (rev configs). plainSource c \<and> wfConfig c"
    using assms(2) by simp_all
  from mergeLoop_plain_returns [OF p plain] obtain merged
    where loop: "mergeLoop ?start (rev configs) = Inr merged"
      and proto: "prototype merged = ObjectPrototype"
    by blast
  have run: "mergeConfigs env configPaths = Inr merged"
    using assms(1) loop by (simp add: mergeConfigs_def)
  have opt: "optionOf (own merged) k = firstSet (map (\<lambda>c. optionOf c k) configs)" for k
    using optionOf_mergeLoop [OF p wf loop, of k]
    by (simp add: optionOf_def emptyConfig_def split: option.splits)
  have oth: "map_of (others (own merged)) k = firstSet (map (\<lambda>c. map_of (others c) k) configs)"
    if "k \<notin> set RESERVED" for k
    using others_mergeLoop [OF p wf loop that]
    by (simp add: emptyConfig_def split: option.splits)
  from arrays_mergeLoop [OF p plain loop]
  have arr: "arrayOf (include (own merged)) = concat (map (\<lambda>c. arrayOf (include c)) (rev configs))"
    "arrayOf (exclude (own merged)) = concat (map (\<lambda>c. arrayOf (exclude c)) (rev configs))"
    "arrayOf (files (own merged)) = concat (map (\<lambda>c. arrayOf (files c)) (rev configs))"
    and none: "include (own merged) = None \<longleftrightarrow> list_all (\<lambda>c. include c = None) configs"
    "exclude (own merged) = None \<longleftrightarrow> list_all (\<lambda>c. exclude c = None) configs"
    "files (own merged) = None \<longleftrightarrow> list_all (\<lambda>c. files c = None) configs"
    by (simp_all add: emptyConfig_def arrayOf_def list_all_iff)
  have ms: "mset (arrayOf (include (own merged))) = (\<Sum>c\<leftarrow>configs. mset (arrayOf (include c)))"
    "mset (arrayOf (exclude (own merged))) = (\<Sum>c\<leftarrow>configs. mset (arrayOf (exclude c)))"
    "mset (arrayOf (files (own merged))) = (\<Sum>c\<leftarrow>configs. mset (arrayOf (files c)))"
    by (simp_all only: arr mset_concat_rev_arrays)
  show ?thesis
    by (intro exI [of _ merged] conjI allI impI)
       (rule run proto opt oth arr ms none | assumption)+
qed

theorem mergeConfigs_plain_sources_witness:
  "\<exists>merged. mergeConfigs protoEnv [''target.json'', ''include.json''] = Inr merged
     \<and> prototype merged = ObjectPrototype
     \<and> optionOf (own merged) ''target'' = Some (JStr ''es5'')
     \<and> arrayOf (include (own merged)) = [''a'']"
proof -
  have read: "readConfigs protoEnv [''target.json'', ''include.json'']
                = Inr [targetSource, includeSource]"
    by (simp add: readTSConfig_def protoEnv_def)
  have plain: "\<forall>c \<in> set [targetSource, includeSource]. plainSource c \<and> wfConfig c"
    by (simp add: plainSource_def wfConfig_def targetSource_def includeSource_def emptyConfig_def)
  from mergeConfigs_plain_sources [OF read plain] obtain merged
    where run: "mergeConfigs protoEnv [''target.json'', ''include.json''] = Inr merged"
      and proto: "prototype merged = ObjectPrototype"
      and opt: "\<forall>k. optionOf (own merged) k
                  = firstSet (map (\<lambda>c. optionOf c k) [targetSource, includeSource])"
      and arr: "arrayOf (include (own merged))
                  = concat (map (\<lambda>c. arrayOf (include c)) (rev [targetSource, includeSource]))"
    by blast
  from opt have a: "optionOf (own merged) ''target'' = Some (JStr ''es5'')"
    by (simp add: optionOf_def targetSource_def includeSource_def emptyConfig_def)
  from arr have b: "arrayOf (include (own merged)) = [''a'']"
    by (simp add: arrayOf_def targetSource_def includeSource_def emptyConfig_def)
  from run proto a b show ?thesis by blast
qed

text \<open>
  Claim C2, evaluated where it fails. The key \<^verbatim>\<open>__proto__\<close> is outside the reserved list,
  and the only source \<^verbatim>\<open>{"__proto__": 5, "compileOnSave": true}\<close> sets it; the merged
  object has the own property \<^verbatim>\<open>compileOnSave\<close> and no property \<^verbatim>\<open>__proto__\<close>, since the
  setter ignores a number. With the sources \<^verbatim>\<open>{"compilerOptions": {"target": "es5"}}\<close>
  and \<^verbatim>\<open>{"__proto__": {"compilerOptions": {"strict": true}}}\<close>, the object under
  \<^verbatim>\<open>__proto__\<close> becomes the prototype of the merged object instead of a property of it, and
  the spread of the next iteration reads the inherited \<^verbatim>\<open>compilerOptions\<close>: the merged
  options hold \<^verbatim>\<open>strict\<close>, which no source sets in its \<^verbatim>\<open>compilerOptions\<close>.
\<close>

theorem mergeConfigs_proto_key:
  "mergeConfigs protoEnv [''number.json'']
     = Inr \<lparr>own = emptyConfig\<lparr>others := [(''compileOnSave'', JBool True)]\<rparr>,
            prototype = ObjectPrototype\<rparr>
   \<and> ''__proto__'' \<notin> set RESERVED
   \<and> firstSet (map (\<lambda>c. map_of (others c) ''__proto__'') [numberSource]) = Some (JNum 5)
   \<and> mergeConfigs protoEnv [''target.json'', ''options-proto.json'']
       = Inr \<lparr>own = emptyConfig\<lparr>compilerOptions :=
                      Some [(''strict'', JBool True), (''target'', JStr ''es5'')]\<rparr>,
              prototype =
                ValuePrototype (JObj [(''compilerOptions'', JObj [(''strict'', JBool True)])])\<rparr>
   \<and> firstSet (map (\<lambda>c. optionOf c ''strict'') [targetSource, optionsProtoSource]) = None
   \<and> firstSet (map (\<lambda>c. map_of (others c) ''__proto__'') [targetSource, optionsProtoSource])
       = Some (JObj [(''compilerOptions'', JObj [(''strict'', JBool True)])])"
  by (simp add: mergeConfigs_def readTSConfig_def protoEnv_def mergeStep_def Let_def mergeArray_def
      currentOptions_def inherited_def entriesOf_def spread_def assign_def reachesSetter_def
      setPrototype_def RESERVED_def optionOf_def emptyConfig_def numberSource_def
      targetSource_def optionsProtoSource_def)

text \<open>
  Claim C3, evaluated where it fails. The sources are \<^verbatim>\<open>{"include": ["a"]}\<close> and
  \<^verbatim>\<open>{"__proto__": {"include": ["evil"]}}\<close>, in this order. The second is processed first
  and its \<^verbatim>\<open>__proto__\<close> value becomes the prototype of the merged object; for the first
  source \<^verbatim>\<open>mergedConfig.include || []\<close> then reads the inherited array. The merged
  \<^verbatim>\<open>include\<close> is \<^verbatim>\<open>["evil", "a"]\<close>, while the \<^verbatim>\<open>include\<close> arrays of the sources hold
  \<^verbatim>\<open>"a"\<close> only.
\<close>

theorem mergeConfigs_inherited_array:
  "mergeConfigs protoEnv [''include.json'', ''include-proto.json'']
     = Inr \<lparr>own = emptyConfig\<lparr>include := Some [''evil'', ''a'']\<rparr>,
            prototype = ValuePrototype (JObj [(''include'', JArr [JStr ''evil''])])\<rparr>
   \<and> concat (map (\<lambda>c. arrayOf (include c)) (rev [includeSource, includeProtoSource])) = [''a'']
   \<and> (\<Sum>c\<leftarrow>[includeSource, includeProtoSource]. mset (arrayOf (include c))) = {#''a''#}"
  by (simp add: mergeConfigs_def readTSConfig_def protoEnv_def mergeStep_def Let_def mergeArray_def
      spreadElements_def inherited_def assign_def reachesSetter_def setPrototype_def
      RESERVED_def arrayOf_def emptyConfig_def includeSource_def includeProtoSource_def)

section \<open>Schema validation\<close>

lemma elementIssues_path:
  "e \<in> set (elementIssues p i xs) \<Longrightarrow> \<exists>j. path e = p @ [Index j]"
  by (induction p i xs rule: elementIssues.induct) (auto split: json.splits)

lemma valueIssues_path:
  "e \<in> set (valueIssues shape [Key key] v) \<Longrightarrow> path e = [Key key] \<or> (\<exists>j. path e = [Key key, Index j])"
  by (induction shape "[Key key]" v rule: valueIssues.induct)
     (auto split: if_splits dest: elementIssues_path)

lemma objectIssues_other_key:
  "k \<notin> fst ` set schema \<Longrightarrow> filter (\<lambda>e. Key k \<in> set (path e)) (objectIssues schema kvs) = []"
proof (induction schema kvs rule: objectIssues.induct)
  case (1 kvs)
  then show ?case by simp
next
  case (2 key shape schema kvs)
  then have "key \<noteq> k" by auto
  then have "\<forall>e \<in> set (valueIssues shape [Key key] v). Key k \<notin> set (path e)" for v
    using valueIssues_path by fastforce
  with 2 show ?case by (auto simp: filter_empty_conv split: option.splits)
qed

lemma objectIssues_unrecognized:
  "\<forall>k \<in> fst ` set kvs. k \<notin> fst ` set schema \<Longrightarrow> objectIssues schema kvs = []"
proof (induction schema kvs rule: objectIssues.induct)
  case (1 kvs)
  then show ?case by simp
next
  case (2 key shape schema kvs)
  then have "map_of kvs key = None"
    by (force simp: map_of_eq_None_iff)
  with 2 show ?case by auto
qed

lemma schema_target_first:
  "\<exists>values rest. compilerOptionsSchema = (''target'', Enum values) # rest
     \<and> ''invalid'' \<notin> set values \<and> ''target'' \<notin> fst ` set rest"
  by (simp add: compilerOptionsSchema_def)

lemma target_invalid_issues:
  assumes "map_of kvs ''target'' = Some (JStr ''invalid'')"
  shows "\<exists>more. objectIssues compilerOptionsSchema kvs
                  = \<lparr>code = invalid_enum_value, path = [Key ''target'']\<rparr> # more
               \<and> filter (\<lambda>e. Key ''target'' \<in> set (path e)) more = []
               \<and> ((\<forall>k \<in> fst ` set kvs. k \<noteq> ''target'' \<longrightarrow> k \<notin> fst ` set compilerOptionsSchema)
                    \<longrightarrow> more = [])"
proof -
  from schema_target_first obtain vs rest
    where sch: "compilerOptionsSchema = (''target'', Enum vs) # rest"
      and bad: "''invalid'' \<notin> set vs" and other: "''target'' \<notin> fst ` set rest"
    by blast
  have parse: "objectIssues compilerOptionsSchema kvs
                 = \<lparr>code = invalid_enum_value, path = [Key ''target'']\<rparr> # objectIssues rest kvs"
    using assms bad by (simp add: sch)
  have none: "filter (\<lambda>e. Key ''target'' \<in> set (path e)) (objectIssues rest kvs) = []"
    using other by (rule objectIssues_other_key)
  have only: "objectIssues rest kvs = []"
    if only_target: "\<forall>k \<in> fst ` set kvs. k \<noteq> ''target'' \<longrightarrow> k \<notin> fst ` set compilerOptionsSchema"
  proof -
    have "objectIssues rest [kv \<leftarrow> kvs. fst kv \<noteq> ''target''] = []"
      using only_target by (intro objectIssues_unrecognized) (auto simp: sch)
    moreover have "objectIssues sc [kv \<leftarrow> kvs. fst kv \<noteq> ''target''] = objectIssues sc kvs"
      if "''target'' \<notin> fst ` set sc" for sc
      using that
    proof (induction sc)
      case Nil
      then show ?case by simp
    next
      case (Cons entry sc)
      obtain key shape where entry: "entry = (key, shape)" by (cases entry)
      with Cons.prems have "key \<noteq> ''target''" by auto
      then have "map_of [kv \<leftarrow> kvs. fst kv \<noteq> ''target''] key = map_of kvs key"
        by (induction kvs) auto
      with Cons entry show ?case by simp
    qed
    ultimately show ?thesis using other by simp
  qed
  from parse none only show ?thesis by blast
qed

text \<open>
  Claim C4. A settings object whose \<^verbatim>\<open>target\<close> is the string \<^verbatim>\<open>"invalid"\<close> is reported
  invalid, and exactly one of the reported errors has \<^verbatim>\<open>target\<close> on its path: the one
  with the path \<^verbatim>\<open>["target"]\<close>; it is the only error when no other property of the object
  is named by the schema, as for \<^verbatim>\<open>{target: "invalid"}\<close> itself. The empty settings
  object is valid, and so is every object all of whose keys are unrecognized.
\<close>

theorem validateCompilerOptions_cases:
  "(map_of kvs ''target'' = Some (JStr ''invalid'') \<longrightarrow>
      \<not> valid (validateCompilerOptions (JObj kvs))
      \<and> filter (\<lambda>e. Key ''target'' \<in> set (path e)) (errors (validateCompilerOptions (JObj kvs)))
          = [\<lparr>code = invalid_enum_value, path = [Key ''target'']\<rparr>]
      \<and> ((\<forall>k \<in> fst ` set kvs. k \<noteq> ''target'' \<longrightarrow> k \<notin> fst ` set compilerOptionsSchema) \<longrightarrow>
           errors (validateCompilerOptions (JObj kvs))
             = [\<lparr>code = invalid_enum_value, path = [Key ''target'']\<rparr>]))
   \<and> validateCompilerOptions (JObj [(''target'', JStr ''invalid'')])
       = \<lparr>valid = False, errors = [\<lparr>code = invalid_enum_value, path = [Key ''target'']\<rparr>]\<rparr>
   \<and> validateCompilerOptions (JObj []) = \<lparr>valid = True, errors = []\<rparr>
   \<and> ((\<forall>k \<in> fst ` set kvs. k \<notin> fst ` set compilerOptionsSchema) \<longrightarrow>
        validateCompilerOptions (JObj kvs) = \<lparr>valid = True, errors = []\<rparr>)"
proof (intro conjI impI)
  assume t: "map_of kvs ''target'' = Some (JStr ''invalid'')"
  from target_invalid_issues [OF t] obtain more
    where parse: "objectIssues compilerOptionsSchema kvs
                    = \<lparr>code = invalid_enum_value, path = [Key ''target'']\<rparr> # more"
      and none: "filter (\<lambda>e. Key ''target'' \<in> set (path e)) more = []"
      and only: "(\<forall>k \<in> fst ` set kvs. k \<noteq> ''target'' \<longrightarrow> k \<notin> fst ` set compilerOptionsSchema)
                   \<longrightarrow> more = []"
    by blast
  show "\<not> valid (validateCompilerOptions (JObj kvs))"
    by (simp add: validateCompilerOptions_def parse)
  show "filter (\<lambda>e. Key ''target'' \<in> set (path e)) (errors (validateCompilerOptions (JObj kvs)))
          = [\<lparr>code = invalid_enum_value, path = [Key ''target'']\<rparr>]"
    using none by (simp add: validateCompilerOptions_def parse)
  show "errors (validateCompilerOptions (JObj kvs))
          = [\<lparr>code = invalid_enum_value, path = [Key ''target'']\<rparr>]"
    if "\<forall>k \<in> fst ` set kvs. k \<noteq> ''target'' \<longrightarrow> k \<notin> fst ` set compilerOptionsSchema"
    using that only by (simp add: validateCompilerOptions_def parse)
next
  have t: "map_of [(''target'', JStr ''invalid'')] ''target'' = Some (JStr ''invalid'')"
    by simp
  from target_invalid_issues [OF t] show "validateCompilerOptions (JObj [(''target'', JStr ''invalid'')])
       = \<lparr>valid = False, errors = [\<lparr>code = invalid_enum_value, path = [Key ''target'']\<rparr>]\<rparr>"
    by (auto simp: validateCompilerOptions_def)
next
  have "objectIssues compilerOptionsSchema [] = []"
    by (rule objectIssues_unrecognized) simp
  then show "validateCompilerOptions (JObj []) = \<lparr>valid = True, errors = []\<rparr>"
    by (simp add: validateCompilerOptions_def)
next
  assume "\<forall>k \<in> fst ` set kvs. k \<notin> fst ` set compilerOptionsSchema"
  then have "objectIssues compilerOptionsSchema kvs = []"
    by (rule objectIssues_unrecognized)
  then show "validateCompilerOptions (JObj kvs) = \<lparr>valid = True, errors = []\<rparr>"
    by (simp add: validateCompilerOptions_def)
qed

theorem validateCompilerOptions_cases_witness:
  "\<not> valid (validateCompilerOptions
       (JObj [(''strict'', JStr ''yes''), (''target'', JStr ''invalid''), (''lib'', JArr [JNum 1])]))
   \<and> filter (\<lambda>e. Key ''target'' \<in> set (path e))
        (errors (validateCompilerOptions
           (JObj [(''strict'', JStr ''yes''), (''target'', JStr ''invalid''), (''lib'', JArr [JNum 1])])))
       = [\<lparr>code = invalid_enum_value, path = [Key ''target'']\<rparr>]
   \<and> validateCompilerOptions (JObj [(''incremental'', JBool True), (''paths'', JObj [])])
       = \<lparr>valid = True, errors = []\<rparr>"
proof -
  let ?bad = "[(''strict'', JStr ''yes''), (''target'', JStr ''invalid''), (''lib'', JArr [JNum 1])]"
  let ?open = "[(''incremental'', JBool True), (''paths'', JObj [])]"
  have t: "map_of ?bad ''target'' = Some (JStr ''invalid'')" by simp
  have u: "\<forall>k \<in> fst ` set ?open. k \<notin> fst ` set compilerOptionsSchema"
    by (simp add: compilerOptionsSchema_def)
  from validateCompilerOptions_cases [of ?bad] t
  have a: "\<not> valid (validateCompilerOptions (JObj ?bad))
      \<and> filter (\<lambda>e. Key ''target'' \<in> set (path e)) (errors (validateCompilerOptions (JObj ?bad)))
          = [\<lparr>code = invalid_enum_value, path = [Key ''target'']\<rparr>]"
    by blast
  from validateCompilerOptions_cases [of ?open] u
  have b: "validateCompilerOptions (JObj ?open) = \<lparr>valid = True, errors = []\<rparr>"
    by blast
  from a b show ?thesis by blast
qed

section \<open>Common issues: fixes are idempotent\<close>

lemma optionOf_withOption:
  "optionOf (withOption key v config) k = (if k = key then Some v else optionOf config k)"
  by (simp add: optionOf_def withOption_def spread_def map_of_obj_set split: option.splits)

lemma toLowerCase_fixed:
  "toLowerCase ''es2022'' = ''es2022''" "toLowerCase ''ESNext'' = ''esnext''"
  by (simp_all add: toLowerCase_def)

lemma filterIssues_Inr:
  "filterIssues rs config = Inr out \<Longrightarrow>
     (\<forall>r \<in> set rs. \<exists>b. check r config = Inr b) \<and> out = filter (\<lambda>r. check r config = Inr True) rs"
  by (induction rs arbitrary: out) (auto split: sum.splits if_splits)

lemma filterIssues_total:
  "\<forall>r \<in> set rs. \<exists>b. check r config = Inr b \<Longrightarrow>
     filterIssues rs config = Inr (filter (\<lambda>r. check r config = Inr True) rs)"
  by (induction rs) (auto split: sum.splits)

lemma commonIssues_distinct: "distinct (map description commonIssues)"
  by (simp add: commonIssues_def)

text \<open>
  The effect of one rule's fix on every check of the catalog: the rule's own check no
  longer holds, and the other checks read an option the fix leaves alone.
\<close>

lemma fix_effect:
  "list_all (\<lambda>r. list_all (\<lambda>r'.
       if description r' = description r
       then check r' (fix r config) = Inr False
       else check r' (fix r config) = check r' config) commonIssues) commonIssues"
  by (simp add: commonIssues_def optionOf_withOption notEnabled_def toLowerCase_fixed)

lemma fix_effect_same:
  assumes "r \<in> set commonIssues" "r' \<in> set commonIssues" "description r' = description r"
  shows "check r' (fix r config) = Inr False"
  using fix_effect [of config] assms unfolding list_all_iff by fastforce

lemma fix_effect_other:
  assumes "r \<in> set commonIssues" "r' \<in> set commonIssues" "description r' \<noteq> description r"
  shows "check r' (fix r config) = check r' config"
  using fix_effect [of config] assms unfolding list_all_iff by fastforce

lemma analyzeCommonIssues_after_fix:
  assumes all: "\<forall>r' \<in> set commonIssues. \<exists>b. check r' config = Inr b"
    and r: "r \<in> set commonIssues"
  shows "\<exists>found'. analyzeCommonIssues (fix r config) = Inr found'
           \<and> description r \<notin> finding_description ` set found'"
proof -
  let ?fixed = "fix r config"
  have "\<exists>b. check r' ?fixed = Inr b" if r': "r' \<in> set commonIssues" for r'
  proof (cases "description r' = description r")
    case True
    then show ?thesis using fix_effect_same [OF r r'] by blast
  next
    case False
    then show ?thesis using fix_effect_other [OF r r'] all r' by simp
  qed
  then have run: "filterIssues commonIssues ?fixed
                    = Inr (filter (\<lambda>r'. check r' ?fixed = Inr True) commonIssues)"
    by (intro filterIssues_total) blast
  have "description r \<notin> description ` set (filter (\<lambda>r'. check r' ?fixed = Inr True) commonIssues)"
  proof
    assume "description r \<in> description ` set (filter (\<lambda>r'. check r' ?fixed = Inr True) commonIssues)"
    then obtain r' where r': "r' \<in> set commonIssues" and holds: "check r' ?fixed = Inr True"
      and same: "description r' = description r"
      by (auto simp: eq_commute)
    from fix_effect_same [OF r r' same, of config] holds show False by simp
  qed
  then show ?thesis
    by (simp add: analyzeCommonIssues_def run image_image)
qed

text \<open>
  Claim C9. Let detection succeed on a configuration (no check throws). For every issue it
  reports, detection on that issue's fixed configuration succeeds too and reports no issue
  with that rule's description; at the level of the catalog, the check of a rule does not
  hold on the rule's own fixed configuration. \<open>applyFix\<close> with an index outside the range
  of the detected issues returns the configuration it was given, and with an index inside
  it returns the fix detected at that index.
\<close>

theorem autofix_idempotent:
  assumes "analyzeCommonIssues config = Inr found"
  shows "(\<forall>i < length found.
            \<exists>found'. analyzeCommonIssues (finding_fix (found ! i)) = Inr found'
              \<and> finding_description (found ! i) \<notin> finding_description ` set found')
       \<and> (\<forall>issue \<in> set commonIssues. check issue (fix issue config) = Inr False)
       \<and> (\<forall>fixIndex. \<not> (0 \<le> fixIndex \<and> fixIndex < int (length found)) \<longrightarrow>
            applyFix config fixIndex = Inr config)
       \<and> (\<forall>i < length found. applyFix config (int i) = Inr (finding_fix (found ! i)))"
proof (intro conjI allI impI ballI)
  from assms obtain issues where fi: "filterIssues commonIssues config = Inr issues"
    and found: "found = map (\<lambda>issue. \<lparr>finding_description = description issue,
                              finding_fix = fix issue config,
                              finding_reason = reason issue\<rparr>) issues"
    by (auto simp: analyzeCommonIssues_def split: sum.splits)
  from filterIssues_Inr [OF fi]
  have all: "\<forall>r \<in> set commonIssues. \<exists>b. check r config = Inr b"
    and issues: "issues = filter (\<lambda>r. check r config = Inr True) commonIssues"
    by blast+
  fix i assume i: "i < length found"
  then have "issues ! i \<in> set issues" using found by simp
  then have r: "issues ! i \<in> set commonIssues" using issues by auto
  from analyzeCommonIssues_after_fix [OF all r] i found
  show "\<exists>found'. analyzeCommonIssues (finding_fix (found ! i)) = Inr found'
          \<and> finding_description (found ! i) \<notin> finding_description ` set found'"
    by simp
next
  fix issue assume "issue \<in> set commonIssues"
  then show "check issue (fix issue config) = Inr False"
    by (intro fix_effect_same) simp_all
next
  fix fixIndex assume "\<not> (0 \<le> fixIndex \<and> fixIndex < int (length found))"
  then show "applyFix config fixIndex = Inr config"
    using assms by (auto simp: applyFix_def)
next
  fix i assume "i < length found"
  then show "applyFix config (int i) = Inr (finding_fix (found ! i))"
    using assms by (simp add: applyFix_def)
qed

lemma exampleConfig_issues:
  "analyzeCommonIssues exampleConfig
     = Inr (map (\<lambda>issue. \<lparr>finding_description = description issue,
                           finding_fix = fix issue exampleConfig,
                           finding_reason = reason issue\<rparr>) commonIssues)"
proof -
  have "filterIssues commonIssues exampleConfig
          = Inr (filter (\<lambda>r. check r exampleConfig = Inr True) commonIssues)"
    by (rule filterIssues_total)
       (simp add: commonIssues_def exampleConfig_def emptyConfig_def optionOf_def)
  moreover have "filter (\<lambda>r. check r exampleConfig = Inr True) commonIssues = commonIssues"
    unfolding filter_id_conv
    by (simp add: commonIssues_def exampleConfig_def emptyConfig_def optionOf_def notEnabled_def
        toLowerCase_def)
  ultimately show ?thesis by (simp add: analyzeCommonIssues_def)
qed

theorem autofix_idempotent_witness:
  "(\<exists>found'. analyzeCommonIssues (withOption ''strict'' (JBool True) exampleConfig) = Inr found'
      \<and> ''Strict mode is not enabled'' \<notin> finding_description ` set found')
   \<and> applyFix exampleConfig 13 = Inr exampleConfig
   \<and> applyFix exampleConfig (- 1) = Inr exampleConfig"
proof -
  let ?found = "map (\<lambda>issue. \<lparr>finding_description = description issue,
                           finding_fix = fix issue exampleConfig,
                           finding_reason = reason issue\<rparr>) commonIssues"
  have len: "length ?found = 13" by (simp add: commonIssues_def)
  have first: "finding_fix (?found ! 0) = withOption ''strict'' (JBool True) exampleConfig"
    "finding_description (?found ! 0) = ''Strict mode is not enabled''"
    by (simp_all add: commonIssues_def)
  have pos: "0 < length ?found" by (simp only: len)
  have "\<exists>found'. analyzeCommonIssues (finding_fix (?found ! 0)) = Inr found'
              \<and> finding_description (?found ! 0) \<notin> finding_description ` set found'"
    by (rule autofix_idempotent [OF exampleConfig_issues, THEN conjunct1, rule_format, OF pos])
  then have a: "\<exists>found'. analyzeCommonIssues (withOption ''strict'' (JBool True) exampleConfig) = Inr found'
      \<and> ''Strict mode is not enabled'' \<notin> finding_description ` set found'"
    by (simp only: first)
  have out13: "\<not> (0 \<le> (13::int) \<and> 13 < int (length ?found))" by (simp only: len, simp)
  have outm1: "\<not> (0 \<le> (- 1::int) \<and> - 1 < int (length ?found))" by simp
  have b: "applyFix exampleConfig 13 = Inr exampleConfig"
    by (rule autofix_idempotent [OF exampleConfig_issues, THEN conjunct2, THEN conjunct2,
          THEN conjunct1, rule_format, OF out13])
  have c: "applyFix exampleConfig (- 1) = Inr exampleConfig"
    by (rule autofix_idempotent [OF exampleConfig_issues, THEN conjunct2, THEN conjunct2,
          THEN conjunct1, rule_format, OF outm1])
  from a b c show ?thesis by (intro conjI)
qed

section \<open>Structure analysis\<close>

lemma minimatch_examples:
  "minimatch ''src/a.ts'' ''src/*.ts'' = Inr True"
  "minimatch ''src/a.tsx'' ''src/*.ts'' = Inr False"
  "minimatch ''src/a.ts'' ''*.?s'' = Inr True"
  "minimatch ''src/a.ts'' ''c++/*'' = Inl SyntaxError"
  "minimatch ''src/a.ts'' ''+(a|b)'' = Inl SyntaxError"
  "minimatch ''src/a.ts'' ''src/(a)'' = Inl Unmodelled"
  by (simp_all add: minimatch_def replaceAll_def RegExp_def regexTest_def syntaxCharacters_def)

lemma analyzeProjectStructure_shape:
  assumes "analyzeProjectStructure structure tsconfig = Inr messages"
  shows "\<exists>rest. messages = missingMessages structure (files tsconfig) @ rest
           \<and> (\<forall>m \<in> set rest. \<exists>n. m = includeMessage n \<or> m = excludeMessage n)"
  using assms
  by (auto simp: analyzeProjectStructure_def Let_def split: option.splits sum.splits if_splits)

lemma analyzeProjectStructure_no_patterns:
  assumes "include tsconfig = None" and "exclude tsconfig = None"
  shows "analyzeProjectStructure structure tsconfig
           = Inr (missingMessages structure (files tsconfig))"
  using assms by (simp add: analyzeProjectStructure_def)

lemma missingMessages_lists_every_missing_file:
  assumes "file \<in> set declared" and "file \<notin> set (ProjectStructure.files structure)"
  shows "''  - '' @ file \<in> set (missingMessages structure (Some declared))"
proof -
  from assms
  have "file \<in> set (filter (\<lambda>file. file \<notin> set (ProjectStructure.files structure)) declared)"
    by simp
  then show ?thesis
    by (auto simp: missingMessages_def Let_def filter_empty_conv)
qed

lemma pattern_messages_name_no_file:
  "includeMessage n \<noteq> ''  - '' @ file" "excludeMessage n \<noteq> ''  - '' @ file"
  by (simp_all add: includeMessage_def excludeMessage_def)

text \<open>
  Claim C7. Let the configuration declare the file list \<^verbatim>\<open>["src/a.ts"]\<close> and the structure
  not hold \<^verbatim>\<open>src/a.ts\<close>. With no include and exclude patterns the analyzer returns the
  heading and the one line that names the file; whatever the patterns are, when it returns,
  its messages start with these two and exactly one message is the line naming the file.
  In general, for a declared list, the returned messages start with the messages of the
  missing-files block, every declared file that the structure lacks has its line among
  them, and the block itself never makes the analyzer fail: without patterns the analyzer
  returns exactly the block's messages.
\<close>

theorem analyzeProjectStructure_missing_files:
  "(files tsconfig = Some [''src/a.ts''] \<and> ''src/a.ts'' \<notin> set (ProjectStructure.files structure) \<longrightarrow>
      (include tsconfig = None \<and> exclude tsconfig = None \<longrightarrow>
         analyzeProjectStructure structure tsconfig = Inr [missingHeader, ''  - src/a.ts''])
      \<and> (analyzeProjectStructure structure tsconfig = Inr messages \<longrightarrow>
           take 2 messages = [missingHeader, ''  - src/a.ts'']
           \<and> length (filter (\<lambda>m. m = ''  - src/a.ts'') messages) = 1))
   \<and> (files tsconfig = Some declared \<and> analyzeProjectStructure structure tsconfig = Inr messages \<longrightarrow>
        (\<exists>rest. messages = missingMessages structure (Some declared) @ rest
           \<and> (\<forall>m \<in> set rest. \<exists>n. m = includeMessage n \<or> m = excludeMessage n))
        \<and> (\<forall>file \<in> set declared. file \<notin> set (ProjectStructure.files structure) \<longrightarrow>
              ''  - '' @ file \<in> set messages))
   \<and> (include tsconfig = None \<and> exclude tsconfig = None \<longrightarrow>
        analyzeProjectStructure structure tsconfig
          = Inr (missingMessages structure (files tsconfig)))"
proof (intro conjI impI)
  assume a: "files tsconfig = Some [''src/a.ts''] \<and> ''src/a.ts'' \<notin> set (ProjectStructure.files structure)"
  then have block: "missingMessages structure (files tsconfig) = [missingHeader, ''  - src/a.ts'']"
    by (simp add: missingMessages_def)
  show "analyzeProjectStructure structure tsconfig = Inr [missingHeader, ''  - src/a.ts'']"
    if "include tsconfig = None \<and> exclude tsconfig = None"
    using that block by (simp add: analyzeProjectStructure_no_patterns)
  assume r: "analyzeProjectStructure structure tsconfig = Inr messages"
  from analyzeProjectStructure_shape [OF r] block obtain rest
    where m: "messages = [missingHeader, ''  - src/a.ts''] @ rest"
      and rest: "\<forall>m \<in> set rest. \<exists>n. m = includeMessage n \<or> m = excludeMessage n"
    by auto
  show "take 2 messages = [missingHeader, ''  - src/a.ts'']"
    by (simp add: m)
  have "filter (\<lambda>m. m = ''  - src/a.ts'') rest = []"
    using rest pattern_messages_name_no_file [of _ "''src/a.ts''"]
    by (fastforce simp: filter_empty_conv)
  then show "length (filter (\<lambda>m. m = ''  - src/a.ts'') messages) = 1"
    by (simp add: m missingHeader_def)
next
  assume a: "files tsconfig = Some declared \<and> analyzeProjectStructure structure tsconfig = Inr messages"
  with analyzeProjectStructure_shape [of "structure" tsconfig messages]
  show shape: "\<exists>rest. messages = missingMessages structure (Some declared) @ rest
           \<and> (\<forall>m \<in> set rest. \<exists>n. m = includeMessage n \<or> m = excludeMessage n)"
    by simp
  then show "\<forall>file \<in> set declared. file \<notin> set (ProjectStructure.files structure) \<longrightarrow>
              ''  - '' @ file \<in> set messages"
    using missingMessages_lists_every_missing_file [of _ declared "structure"] by auto
next
  assume "include tsconfig = None \<and> exclude tsconfig = None"
  then show "analyzeProjectStructure structure tsconfig
          = Inr (missingMessages structure (files tsconfig))"
    by (simp add: analyzeProjectStructure_no_patterns)
qed

theorem analyzeProjectStructure_missing_files_witness:
  "analyzeProjectStructure \<lparr>ProjectStructure.files = [''src/b.ts'', ''README.md''], directories = [''src'']\<rparr>
       (emptyConfig\<lparr>files := Some [''src/a.ts'']\<rparr>)
     = Inr [missingHeader, ''  - src/a.ts'']
   \<and> take 2 [missingHeader, ''  - src/a.ts'', includeMessage 1]
       = [missingHeader, ''  - src/a.ts'']
   \<and> length (filter (\<lambda>m. m = ''  - src/a.ts'') [missingHeader, ''  - src/a.ts'', includeMessage 1]) = 1"
proof -
  let ?s = "\<lparr>ProjectStructure.files = [''src/b.ts'', ''README.md''], directories = [''src'']\<rparr>"
  let ?c = "emptyConfig\<lparr>files := Some [''src/a.ts'']\<rparr>"
  let ?d = "emptyConfig\<lparr>files := Some [''src/a.ts''], include := Some [''src/*.ts'']\<rparr>"
  have hyp: "files ?c = Some [''src/a.ts''] \<and> ''src/a.ts'' \<notin> set (ProjectStructure.files ?s)"
    by simp
  have none: "include ?c = None \<and> exclude ?c = None"
    by (simp add: emptyConfig_def)
  have a: "analyzeProjectStructure ?s ?c = Inr [missingHeader, ''  - src/a.ts'']"
    using analyzeProjectStructure_missing_files [of ?c ?s] hyp none by blast
  have hyp': "files ?d = Some [''src/a.ts''] \<and> ''src/a.ts'' \<notin> set (ProjectStructure.files ?s)"
    by simp
  have run: "analyzeProjectStructure ?s ?d = Inr [missingHeader, ''  - src/a.ts'', includeMessage 1]"
    by (simp add: analyzeProjectStructure_def missingMessages_def emptyConfig_def minimatch_def
        replaceAll_def RegExp_def regexTest_def syntaxCharacters_def)
  have b: "take 2 [missingHeader, ''  - src/a.ts'', includeMessage 1] = [missingHeader, ''  - src/a.ts'']
     \<and> length (filter (\<lambda>m. m = ''  - src/a.ts'') [missingHeader, ''  - src/a.ts'', includeMessage 1]) = 1"
    using analyzeProjectStructure_missing_files [of ?d ?s "[missingHeader, ''  - src/a.ts'', includeMessage 1]"]
      hyp' run by blast
  from a b show ?thesis by blast
qed

text \<open>
  Claim C8, evaluated where it fails. The project holds the file \<^verbatim>\<open>src/a.ts\<close> and the
  configuration includes the pattern \<^verbatim>\<open>c++/*\<close>. The matcher escapes the dot only, so the
  source of the regular expression is \<^verbatim>\<open>^c++/.*$\<close>, whose second \<^verbatim>\<open>+\<close> has nothing to
  repeat: the constructor throws and the analyzer does not return its messages.
\<close>

theorem analyzeProjectStructure_raises:
  "analyzeProjectStructure \<lparr>ProjectStructure.files = [''src/a.ts''], directories = [''src'']\<rparr>
       (emptyConfig\<lparr>include := Some [''c++/*'']\<rparr>)
     = Inl SyntaxError"
  by (simp add: analyzeProjectStructure_def missingMessages_def emptyConfig_def minimatch_def
      replaceAll_def RegExp_def)

section \<open>The dependency scan never raises\<close>

lemma scanEntries_append:
  "scanEntries env nm (before @ rest) deps =
     (case scanEntries env nm before deps of
        (deps', None) \<Rightarrow> scanEntries env nm rest deps'
      | (deps', Some e) \<Rightarrow> (deps', Some e))"
  by (induction before arbitrary: deps) (auto split: sum.splits option.splits prod.splits)

lemma scanEntries_failing_scope:
  assumes "kind entry = IsDirectory" and "startsWith (name entry) ''@''"
    and "readdir env (join env nm (name entry)) = Inl e"
  shows "scanEntries env nm (entry # rest) deps = (deps, Some e)"
  using assms by simp

text \<open>
  Claim C10. For every file system and project root \<open>scanNodeModules\<close> returns a map. When
  the dependency directory cannot be read the map is empty. When the directory of a scope
  cannot be read, the map is the one accumulated from the entries before that scope: the
  entries after it are not visited. Configuration discovery does not catch: a root that
  cannot be read, or a directory below it, makes \<open>findTSConfigs\<close> end with the error.
\<close>

theorem scanNodeModules_never_raises:
  "(\<exists>dependencyConfigs. scanNodeModules env projectRoot = Inr dependencyConfigs)
   \<and> (readdir env (join env projectRoot ''node_modules'') = Inl e \<longrightarrow>
        scanNodeModules env projectRoot = Inr [])
   \<and> (readdir env (join env projectRoot ''node_modules'') = Inr (before @ entry # rest)
        \<and> scanEntries env (join env projectRoot ''node_modules'') before [] = (deps, None)
        \<and> kind entry = IsDirectory \<and> startsWith (name entry) ''@''
        \<and> readdir env (join env (join env projectRoot ''node_modules'') (name entry)) = Inl e \<longrightarrow>
        scanNodeModules env projectRoot = Inr deps)
   \<and> (readdir env projectRoot = Inl e \<longrightarrow> findTSConfigs env projectRoot = Some (Inl e))
   \<and> (readdir env projectRoot = Inr (entry # rest)
        \<and> kind entry = IsDirectory \<and> \<not> startsWith (name entry) ''.''
        \<and> name entry \<noteq> ''node_modules''
        \<and> readdir env (join env projectRoot (name entry)) = Inl e \<longrightarrow>
        findTSConfigs env projectRoot = Some (Inl e))"
proof (intro conjI impI)
  show "\<exists>dependencyConfigs. scanNodeModules env projectRoot = Inr dependencyConfigs"
    by (simp add: scanNodeModules_def split: prod.splits)
next
  assume "readdir env (join env projectRoot ''node_modules'') = Inl e"
  then show "scanNodeModules env projectRoot = Inr []"
    by (simp add: scanNodeModules_def scanNodeModulesTry_def)
next
  let ?nm = "join env projectRoot ''node_modules''"
  assume a: "readdir env ?nm = Inr (before @ entry # rest)
        \<and> scanEntries env ?nm before [] = (deps, None)
        \<and> kind entry = IsDirectory \<and> startsWith (name entry) ''@''
        \<and> readdir env (join env ?nm (name entry)) = Inl e"
  then have "scanEntries env ?nm (entry # rest) deps = (deps, Some e)"
    by (intro scanEntries_failing_scope) simp_all
  with a have "scanEntries env ?nm (before @ entry # rest) [] = (deps, Some e)"
    by (simp add: scanEntries_append)
  with a show "scanNodeModules env projectRoot = Inr deps"
    by (simp add: scanNodeModules_def scanNodeModulesTry_def)
next
  assume "readdir env projectRoot = Inl e"
  then show "findTSConfigs env projectRoot = Some (Inl e)"
    by (simp add: findTSConfigs_def)
next
  assume a: "readdir env projectRoot = Inr (entry # rest)
        \<and> kind entry = IsDirectory \<and> \<not> startsWith (name entry) ''.''
        \<and> name entry \<noteq> ''node_modules''
        \<and> readdir env (join env projectRoot (name entry)) = Inl e"
  then have "scanDirectoryLoop env projectRoot (entry # rest) [] = Some (Inl e)"
    by (subst scanDirectoryLoop.simps) simp
  with a show "findTSConfigs env projectRoot = Some (Inl e)"
    by (simp add: findTSConfigs_def)
qed

theorem scanNodeModules_never_raises_witness:
  "scanNodeModules brokenScopeEnv ''proj'' = Inr [(''left-pad'', baseSource)]
   \<and> scanNodeModules brokenScopeEnv ''elsewhere'' = Inr []
   \<and> findTSConfigs brokenScopeEnv ''elsewhere'' = Some (Inl (FsError ''ENOENT''))"
proof -
  let ?pad = "\<lparr>name = ''left-pad'', kind = IsDirectory\<rparr>"
  let ?scope = "\<lparr>name = ''@types'', kind = IsDirectory\<rparr>"
  let ?zod = "\<lparr>name = ''zod'', kind = IsDirectory\<rparr>"
  have dir: "readdir brokenScopeEnv (join brokenScopeEnv ''proj'' ''node_modules'')
               = Inr ([?pad] @ ?scope # [?zod])"
    by (simp add: brokenScopeEnv_def)
  have before: "scanEntries brokenScopeEnv (join brokenScopeEnv ''proj'' ''node_modules'') [?pad] []
                  = ([(''left-pad'', baseSource)], None)"
    by (simp add: brokenScopeEnv_def startsWith_def resolvePackageConfig_def
        resolvePackageConfigTry_def findTSConfig_def possiblePaths_def readTSConfig_def)
  have scope: "kind ?scope = IsDirectory \<and> startsWith (name ?scope) ''@''"
    by (simp add: startsWith_def)
  have broken: "readdir brokenScopeEnv
                  (join brokenScopeEnv (join brokenScopeEnv ''proj'' ''node_modules'') (name ?scope))
                  = Inl (FsError ''EACCES'')"
    by (simp add: brokenScopeEnv_def)
  have a: "scanNodeModules brokenScopeEnv ''proj'' = Inr [(''left-pad'', baseSource)]"
    using scanNodeModules_never_raises
            [of brokenScopeEnv "''proj''" "FsError ''EACCES''" "[?pad]" ?scope "[?zod]"
                "[(''left-pad'', baseSource)]"]
      dir before scope broken
    by blast
  have absent: "readdir brokenScopeEnv (join brokenScopeEnv ''elsewhere'' ''node_modules'')
                  = Inl (FsError ''ENOENT'')"
    "readdir brokenScopeEnv ''elsewhere'' = Inl (FsError ''ENOENT'')"
    by (simp_all add: brokenScopeEnv_def)
  have b: "scanNodeModules brokenScopeEnv ''elsewhere'' = Inr []"
    using scanNodeModules_never_raises [of brokenScopeEnv "''elsewhere''" "FsError ''ENOENT''"]
      absent(1)
    by blast
  have c: "findTSConfigs brokenScopeEnv ''elsewhere'' = Some (Inl (FsError ''ENOENT''))"
    using scanNodeModules_never_raises [of brokenScopeEnv "''elsewhere''" "FsError ''ENOENT''"]
      absent(2)
    by blast
  from a b c show ?thesis by blast
qed

section \<open>Folding dependency configurations\<close>

lemma incorporate_examples:
  "incorporateDependencyConfigs emptyConfig
     [(''dep'', emptyConfig\<lparr>compilerOptions := Some [(''paths'', JObj [(''@lib/*'', JArr [JStr ''src/*''])]),
                                                      (''types'', JArr [JStr ''node''])]\<rparr>)]
   = Inr (emptyConfig\<lparr>compilerOptions :=
            Some [(''paths'', JObj [(''dep/@lib/*'', JArr [JStr ''node_modules/dep/src/*''])]),
                  (''types'', JArr [JStr ''node''])]\<rparr>)"
  by (simp add: incorporateDependencyConfigs_def emptyConfig_def mergePaths_def mergeTypes_def
      ensureOption_def entriesOf_def prefixTargets_def assignPath_def spreadArguments_def)

lemma map_of_fold_assign:
  "map_of (fold (\<lambda>e acc. obj_set acc (fst e) (snd e)) es kvs) = map_of kvs ++ map_of (rev es)"
proof (induction es arbitrary: kvs)
  case Nil
  then show ?case by simp
next
  case (Cons e es)
  let ?f = "\<lambda>e acc. obj_set acc (fst e) (snd e)"
  have step: "map_of (obj_set kvs (fst e) (snd e)) = map_of kvs ++ map_of [e]"
    by (cases e) (simp add: map_of_obj_set)
  have "map_of (fold ?f (e # es) kvs) = map_of (fold ?f es (obj_set kvs (fst e) (snd e)))"
    by simp
  also have "\<dots> = map_of (obj_set kvs (fst e) (snd e)) ++ map_of (rev es)"
    by (rule Cons.IH)
  also have "\<dots> = (map_of kvs ++ map_of [e]) ++ map_of (rev es)"
    by (simp only: step)
  also have "\<dots> = map_of kvs ++ map_of (rev (e # es))"
    by (simp only: rev.simps map_of_append map_add_assoc)
  finally show ?case .
qed

lemma fst_namespaced: "fst (namespaced dep entry) = dep @ ''/'' @ fst entry"
  by (simp add: namespaced_def)

lemma stringsOf_strings: "stringsOf (map JStr ps) = Some ps"
  by (induction ps) simp_all

lemma prefixTargets_strings:
  "prefixTargets dep (JArr (map JStr ps)) = Inr (snd (namespaced dep (k, JArr (map JStr ps))))"
  by (simp add: prefixTargets_def stringsOf_strings namespaced_def comp_def)

lemma pathsLoop_strings:
  assumes "list_all (\<lambda>entry. \<exists>ps. snd entry = JArr (map JStr ps)) entries"
  shows "pathsLoop dep entries (JObj kvs)
           = Inr (JObj (fold (\<lambda>e acc. obj_set acc (fst e) (snd e)) (map (namespaced dep) entries) kvs))"
  using assms
proof (induction entries arbitrary: kvs)
  case Nil
  then show ?case by simp
next
  case (Cons entry entries)
  obtain key v where entry: "entry = (key, v)" by (cases entry)
  from Cons.prems entry obtain ps where v: "v = JArr (map JStr ps)" by auto
  have rest: "list_all (\<lambda>entry. \<exists>ps. snd entry = JArr (map JStr ps)) entries"
    using Cons.prems by simp
  show ?case
    using Cons.IH [OF rest] prefixTargets_strings [of dep ps key]
    by (simp add: entry v fst_namespaced assignPath_def)
qed

lemma truthy_shapes:
  "truthy v \<Longrightarrow> \<not> truthy v \<or> (\<exists>kvs. v = JObj kvs) \<Longrightarrow> \<exists>kvs. v = JObj kvs"
  "truthy v \<Longrightarrow> \<not> truthy v \<or> (\<exists>ts. v = JArr ts) \<Longrightarrow> \<exists>ts. v = JArr ts"
  by auto

lemma falsy_entries:
  "\<not> truthy v \<Longrightarrow> (case v of JObj kvs \<Rightarrow> kvs | _ \<Rightarrow> []) = []"
  "\<not> truthy v \<Longrightarrow> (case v of JArr ts \<Rightarrow> ts | _ \<Rightarrow> []) = []"
  by (cases v; simp)+

lemma ensureOption_paths:
  assumes "shapedOptions options"
  shows "\<exists>options' kvs. ensureOption options ''paths'' (JObj []) = (options', JObj kvs)
           \<and> kvs = pathEntries options
           \<and> map_of options' = (map_of options)(''paths'' \<mapsto> JObj kvs)"
proof (cases "map_of options ''paths''")
  case None
  then show ?thesis
    by (simp add: ensureOption_def pathEntries_def map_of_obj_set)
next
  case (Some v)
  show ?thesis
  proof (cases "truthy v")
    case True
    with assms Some obtain kvs where "v = JObj kvs"
      by (auto simp: shapedOptions_def)
    with Some show ?thesis
      by (auto simp: ensureOption_def pathEntries_def)
  next
    case False
    with Some show ?thesis
      by (simp add: ensureOption_def pathEntries_def map_of_obj_set falsy_entries)
  qed
qed

lemma ensureOption_types:
  assumes "shapedOptions options"
  shows "\<exists>options' ts. ensureOption options ''types'' (JArr []) = (options', JArr ts)
           \<and> ts = typeEntries options
           \<and> map_of options' = (map_of options)(''types'' \<mapsto> JArr ts)"
proof (cases "map_of options ''types''")
  case None
  then show ?thesis
    by (simp add: ensureOption_def typeEntries_def map_of_obj_set)
next
  case (Some v)
  show ?thesis
  proof (cases "truthy v")
    case True
    with assms Some obtain ts where "v = JArr ts"
      by (auto simp: shapedOptions_def)
    with Some show ?thesis
      by (auto simp: ensureOption_def typeEntries_def)
  next
    case False
    with Some show ?thesis
      by (simp add: ensureOption_def typeEntries_def map_of_obj_set falsy_entries)
  qed
qed

lemma shapedOptions_paths_update:
  "shapedOptions options \<Longrightarrow> map_of options' = (map_of options)(''paths'' \<mapsto> JObj kvs)
     \<Longrightarrow> shapedOptions options'"
  by (simp add: shapedOptions_def)

lemma shapedOptions_types_update:
  "shapedOptions options \<Longrightarrow> map_of options' = (map_of options)(''types'' \<mapsto> JArr ts)
     \<Longrightarrow> shapedOptions options'"
  by (simp add: shapedOptions_def)

lemma mergePaths_shaped:
  assumes opts: "shapedOptions options"
    and dep: "shapedOptions dco"
    and strs: "list_all (\<lambda>entry. \<exists>ps. snd entry = JArr (map JStr ps)) (pathEntries dco)"
  shows "\<exists>options'. mergePaths dep dco options = Inr options'
           \<and> shapedOptions options'
           \<and> map_of (pathEntries options')
               = map_of (pathEntries options) ++ map_of (rev (map (namespaced dep) (pathEntries dco)))
           \<and> typeEntries options' = typeEntries options"
proof (cases "truthyOpt (map_of dco ''paths'')")
  case False
  then have "mergePaths dep dco options = Inr options" and "pathEntries dco = []"
    by (auto simp: truthyOpt_def mergePaths_def pathEntries_def falsy_entries split: option.splits)
  with opts show ?thesis by simp
next
  case True
  then obtain v where v: "map_of dco ''paths'' = Some v" "truthy v"
    by (auto simp: truthyOpt_def split: option.splits)
  with dep obtain entries where entries: "v = JObj entries"
    by (auto simp: shapedOptions_def)
  then have pe: "pathEntries dco = entries"
    using v by (simp add: pathEntries_def)
  from ensureOption_paths [OF opts] obtain options1 kvs
    where ens: "ensureOption options ''paths'' (JObj []) = (options1, JObj kvs)"
      and kvs: "kvs = pathEntries options"
      and m1: "map_of options1 = (map_of options)(''paths'' \<mapsto> JObj kvs)"
    by blast
  let ?new = "fold (\<lambda>e acc. obj_set acc (fst e) (snd e)) (map (namespaced dep) entries) kvs"
  have loop: "pathsLoop dep (entriesOf v) (JObj kvs) = Inr (JObj ?new)"
    using strs pe entries by (simp add: entriesOf_def pathsLoop_strings)
  have run: "mergePaths dep dco options = Inr (obj_set options1 ''paths'' (JObj ?new))"
    using v ens loop by (simp add: mergePaths_def)
  have m2: "map_of (obj_set options1 ''paths'' (JObj ?new))
              = (map_of options)(''paths'' \<mapsto> JObj ?new)"
    by (simp add: map_of_obj_set m1)
  have "pathEntries (obj_set options1 ''paths'' (JObj ?new)) = ?new"
    by (simp add: pathEntries_def m2)
  moreover have "typeEntries (obj_set options1 ''paths'' (JObj ?new)) = typeEntries options"
    by (simp add: typeEntries_def m2)
  moreover have "shapedOptions (obj_set options1 ''paths'' (JObj ?new))"
    using opts m2 by (rule shapedOptions_paths_update)
  ultimately show ?thesis
    using run by (simp add: map_of_fold_assign kvs pe)
qed

lemma mergeTypes_shaped:
  assumes opts: "shapedOptions options" and dep: "shapedOptions dco"
  shows "\<exists>options'. mergeTypes dco options = Inr options'
           \<and> shapedOptions options'
           \<and> typeEntries options' = typeEntries options @ typeEntries dco
           \<and> pathEntries options' = pathEntries options"
proof (cases "truthyOpt (map_of dco ''types'')")
  case False
  then have "mergeTypes dco options = Inr options" and "typeEntries dco = []"
    by (auto simp: truthyOpt_def mergeTypes_def typeEntries_def falsy_entries split: option.splits)
  with opts show ?thesis by simp
next
  case True
  then obtain v where v: "map_of dco ''types'' = Some v" "truthy v"
    by (auto simp: truthyOpt_def split: option.splits)
  with dep obtain items where items: "v = JArr items"
    by (auto simp: shapedOptions_def)
  then have te: "typeEntries dco = items"
    using v by (simp add: typeEntries_def)
  from ensureOption_types [OF opts] obtain options1 ts
    where ens: "ensureOption options ''types'' (JArr []) = (options1, JArr ts)"
      and ts: "ts = typeEntries options"
      and m1: "map_of options1 = (map_of options)(''types'' \<mapsto> JArr ts)"
    by blast
  have run: "mergeTypes dco options = Inr (obj_set options1 ''types'' (JArr (ts @ items)))"
    using v ens items by (simp add: mergeTypes_def spreadArguments_def)
  have m2: "map_of (obj_set options1 ''types'' (JArr (ts @ items)))
              = (map_of options)(''types'' \<mapsto> JArr (ts @ items))"
    by (simp add: map_of_obj_set m1)
  have "typeEntries (obj_set options1 ''types'' (JArr (ts @ items))) = ts @ items"
    by (simp add: typeEntries_def m2)
  moreover have "pathEntries (obj_set options1 ''types'' (JArr (ts @ items))) = pathEntries options"
    by (simp add: pathEntries_def m2)
  moreover have "shapedOptions (obj_set options1 ''types'' (JArr (ts @ items)))"
    using opts m2 by (rule shapedOptions_types_update)
  ultimately show ?thesis
    using run by (simp add: ts te)
qed

lemma contributions_Cons:
  "contributions ((n, c) # rest) = map (namespaced n) (pathsOf c) @ contributions rest"
  by (simp add: contributions_def)

lemma incorporateLoop_shaped:
  assumes "shapedOptions options" and "\<forall>d \<in> set deps. wellShaped (snd d)"
  shows "\<exists>options'. incorporateLoop deps options = Inr options'
           \<and> shapedOptions options'
           \<and> map_of (pathEntries options')
               = map_of (pathEntries options) ++ map_of (rev (contributions deps))
           \<and> typeEntries options'
               = typeEntries options @ concat (map (\<lambda>d. typesOf (snd d)) deps)"
  using assms
proof (induction deps arbitrary: options)
  case Nil
  then show ?case by (simp add: contributions_def)
next
  case (Cons d rest)
  obtain n c where d: "d = (n, c)" by (cases d)
  from Cons.prems d have c: "wellShaped c" and rest: "\<forall>d \<in> set rest. wellShaped (snd d)"
    by simp_all
  show ?case
  proof (cases "compilerOptions c")
    case None
    then have empty: "pathsOf c = []" "typesOf c = []"
      by (simp_all add: pathsOf_def typesOf_def optionsOf_def pathEntries_def typeEntries_def)
    from Cons.IH [OF Cons.prems(1) rest] show ?thesis
      by (simp add: d None contributions_Cons empty)
  next
    case (Some dco)
    then have dco: "optionsOf c = dco" by (simp add: optionsOf_def)
    from c dco have shaped: "shapedOptions dco"
      and strs: "list_all (\<lambda>entry. \<exists>ps. snd entry = JArr (map JStr ps)) (pathEntries dco)"
      by (simp_all add: wellShaped_def pathsOf_def)
    from mergePaths_shaped [OF Cons.prems(1) shaped strs, of n] obtain options1
      where p: "mergePaths n dco options = Inr options1" "shapedOptions options1"
        "map_of (pathEntries options1)
           = map_of (pathEntries options) ++ map_of (rev (map (namespaced n) (pathEntries dco)))"
        "typeEntries options1 = typeEntries options"
      by blast
    from mergeTypes_shaped [OF p(2) shaped] obtain options2
      where t: "mergeTypes dco options1 = Inr options2" "shapedOptions options2"
        "typeEntries options2 = typeEntries options1 @ typeEntries dco"
        "pathEntries options2 = pathEntries options1"
      by blast
    from Cons.IH [OF t(2) rest] obtain options'
      where l: "incorporateLoop rest options2 = Inr options'" "shapedOptions options'"
        "map_of (pathEntries options')
           = map_of (pathEntries options2) ++ map_of (rev (contributions rest))"
        "typeEntries options'
           = typeEntries options2 @ concat (map (\<lambda>d. typesOf (snd d)) rest)"
      by blast
    have run: "incorporateLoop (d # rest) options = Inr options'"
      by (simp add: d Some p(1) t(1) l(1))
    have paths: "map_of (pathEntries options')
                   = map_of (pathEntries options) ++ map_of (rev (contributions (d # rest)))"
      by (simp add: l(3) t(4) p(3) d contributions_Cons pathsOf_def dco)
    have types: "typeEntries options'
                   = typeEntries options @ concat (map (\<lambda>d. typesOf (snd d)) (d # rest))"
      by (simp add: l(4) t(3) p(4) d typesOf_def dco)
    from run l(2) paths types show ?thesis by blast
  qed
qed

lemma incorporateDependencyConfigs_general:
  assumes "shapedOptions (optionsOf projectConfig)"
    and "\<forall>d \<in> set dependencyConfigs. wellShaped (snd d)"
  shows "\<exists>updated. incorporateDependencyConfigs projectConfig dependencyConfigs = Inr updated
           \<and> map_of (pathsOf updated)
               = map_of (pathsOf projectConfig) ++ map_of (rev (contributions dependencyConfigs))
           \<and> typesOf updated
               = typesOf projectConfig @ concat (map (\<lambda>d. typesOf (snd d)) dependencyConfigs)"
proof -
  from incorporateLoop_shaped [OF assms] obtain options'
    where l: "incorporateLoop dependencyConfigs (optionsOf projectConfig) = Inr options'"
      "map_of (pathEntries options')
         = map_of (pathEntries (optionsOf projectConfig))
             ++ map_of (rev (contributions dependencyConfigs))"
      "typeEntries options'
         = typeEntries (optionsOf projectConfig)
             @ concat (map (\<lambda>d. typesOf (snd d)) dependencyConfigs)"
    by blast
  have "incorporateDependencyConfigs projectConfig dependencyConfigs
          = Inr (projectConfig\<lparr>compilerOptions := Some options'\<rparr>)"
    using l(1) by (simp add: incorporateDependencyConfigs_def optionsOf_def)
  moreover have "optionsOf (projectConfig\<lparr>compilerOptions := Some options'\<rparr>) = options'"
    by (simp add: optionsOf_def)
  ultimately show ?thesis
    using l(2,3) by (simp add: pathsOf_def typesOf_def)
qed

text \<open>
  When no two path entries of the dependencies get the same namespaced key, every entry is
  found under its key after the fold.
\<close>

lemma incorporateDependencyConfigs_apart:
  assumes "shapedOptions (optionsOf projectConfig)"
    and "\<forall>d \<in> set dependencyConfigs. wellShaped (snd d)"
    and "distinct (map fst (contributions dependencyConfigs))"
  shows "\<exists>updated. incorporateDependencyConfigs projectConfig dependencyConfigs = Inr updated
       \<and> (\<forall>(dependencyName, dependencyConfig) \<in> set dependencyConfigs.
            \<forall>(k, v) \<in> set (pathsOf dependencyConfig).
              \<exists>ps. v = JArr (map JStr ps)
                \<and> map_of (pathsOf updated) (dependencyName @ ''/'' @ k)
                    = Some (JArr (map (\<lambda>p. JStr (''node_modules/'' @ dependencyName @ ''/'' @ p)) ps)))
       \<and> (\<forall>K. K \<notin> fst ` set (contributions dependencyConfigs) \<longrightarrow>
              map_of (pathsOf updated) K = map_of (pathsOf projectConfig) K)
       \<and> typesOf updated
           = typesOf projectConfig @ concat (map (\<lambda>d. typesOf (snd d)) dependencyConfigs)"
proof -
  from incorporateDependencyConfigs_general [OF assms(1,2)] obtain updated
    where run: "incorporateDependencyConfigs projectConfig dependencyConfigs = Inr updated"
      and paths: "map_of (pathsOf updated)
                    = map_of (pathsOf projectConfig) ++ map_of (rev (contributions dependencyConfigs))"
      and types: "typesOf updated
                    = typesOf projectConfig @ concat (map (\<lambda>d. typesOf (snd d)) dependencyConfigs)"
    by blast
  have present: "\<exists>ps. v = JArr (map JStr ps)
                \<and> map_of (pathsOf updated) (n @ ''/'' @ k)
                    = Some (JArr (map (\<lambda>p. JStr (''node_modules/'' @ n @ ''/'' @ p)) ps))"
    if d: "(n, c) \<in> set dependencyConfigs" and e: "(k, v) \<in> set (pathsOf c)" for n c k v
  proof -
    from assms(2) d have "wellShaped c" by auto
    with e obtain ps where v: "v = JArr (map JStr ps)"
      by (auto simp: wellShaped_def list_all_iff)
    have "namespaced n (k, v) \<in> set (contributions dependencyConfigs)"
      using d e by (auto simp: contributions_def)
    then have "namespaced n (k, v) \<in> set (rev (contributions dependencyConfigs))"
      by simp
    moreover have "distinct (map fst (rev (contributions dependencyConfigs)))"
      using assms(3) by (simp add: rev_map [symmetric])
    ultimately have "map_of (rev (contributions dependencyConfigs)) (fst (namespaced n (k, v)))
                       = Some (snd (namespaced n (k, v)))"
      by (metis map_of_is_SomeI prod.collapse)
    then have "map_of (pathsOf updated) (n @ ''/'' @ k) = Some (snd (namespaced n (k, v)))"
      by (simp add: paths fst_namespaced)
    with v show ?thesis
      by (intro exI [of _ ps]) (simp add: namespaced_def comp_def)
  qed
  have absent: "map_of (pathsOf updated) K = map_of (pathsOf projectConfig) K"
    if "K \<notin> fst ` set (contributions dependencyConfigs)" for K
  proof -
    from that have "map_of (rev (contributions dependencyConfigs)) K = None"
      by (simp add: map_of_eq_None_iff)
    then show ?thesis by (simp add: paths map_add_def)
  qed
  from run present absent types show ?thesis by blast
qed

section \<open>The fold writes to objects of its input\<close>

text \<open>
  Claim C6, evaluated where it fails. The project configuration
  \<^verbatim>\<open>{compilerOptions: {types: ["node"]}}\<close> is the object at address 2 and one dependency
  declares the type \<^verbatim>\<open>jest\<close>. The function returns a new object, at address 3, whose
  \<^verbatim>\<open>compilerOptions\<close> is the very object of the input, and the \<^verbatim>\<open>push\<close> has changed the
  array of the input: read through the input configuration, the types are now
  \<^verbatim>\<open>["node", "jest"]\<close>, as they are read through the returned one. The value returned is
  the one the by-value model gives.
\<close>

theorem incorporateOnHeap_mutates_input:
  "incorporateOnHeap sharedHeap 2 jestDependency
     = Inr ([ArrCell [JStr ''node'', JStr ''jest''],
             ObjCell [(''types'', Ref 0)],
             ObjCell [(''compilerOptions'', Ref 1)],
             ObjCell [(''compilerOptions'', Ref 1)]], 3)
   \<and> compilerOptionsAt sharedHeap 2 = Some [(''types'', JArr [JStr ''node''])]
   \<and> compilerOptionsAt
         [ArrCell [JStr ''node'', JStr ''jest''],
          ObjCell [(''types'', Ref 0)],
          ObjCell [(''compilerOptions'', Ref 1)],
          ObjCell [(''compilerOptions'', Ref 1)]] 2
       = Some [(''types'', JArr [JStr ''node'', JStr ''jest''])]
   \<and> compilerOptionsAt
         [ArrCell [JStr ''node'', JStr ''jest''],
          ObjCell [(''types'', Ref 0)],
          ObjCell [(''compilerOptions'', Ref 1)],
          ObjCell [(''compilerOptions'', Ref 1)]] 3
       = Some [(''types'', JArr [JStr ''node'', JStr ''jest''])]
   \<and> incorporateDependencyConfigs
         (emptyConfig\<lparr>compilerOptions := Some [(''types'', JArr [JStr ''node''])]\<rparr>) jestDependency
       = Inr (emptyConfig\<lparr>compilerOptions := Some [(''types'', JArr [JStr ''node'', JStr ''jest''])]\<rparr>)"
  by (simp add: incorporateOnHeap_def sharedHeap_def jestDependency_def emptyConfig_def
      cellAt_def alloc_def ensureCell_def mergePathsCell_def mergeTypesCell_def
      spreadArguments_def compilerOptionsAt_def slotValue_def
      incorporateDependencyConfigs_def mergePaths_def mergeTypes_def ensureOption_def)

section \<open>Package names keep the namespaced keys apart\<close>

lemma one_slash:
  assumes "length (filter (\<lambda>c. c = CHR ''/'') n) = 1"
  shows "\<exists>a b. n = a @ CHR ''/'' # b \<and> CHR ''/'' \<notin> set a \<and> CHR ''/'' \<notin> set b"
proof -
  from assms have "filter (\<lambda>c. c = CHR ''/'') n \<noteq> []" by auto
  then have "CHR ''/'' \<in> set n" by (auto simp: filter_empty_conv)
  then obtain a b where n: "n = a @ CHR ''/'' # b" and a: "CHR ''/'' \<notin> set a"
    by (auto dest: split_list_first)
  from a have "filter (\<lambda>c. c = CHR ''/'') a = []" by (auto simp: filter_empty_conv)
  with assms n have "filter (\<lambda>c. c = CHR ''/'') b = []" by simp
  then have "CHR ''/'' \<notin> set b" by (auto simp: filter_empty_conv)
  with n a show ?thesis by blast
qed

lemma before_first_slash:
  assumes "CHR ''/'' \<notin> set a" and "CHR ''/'' \<notin> set a'"
    and "a @ CHR ''/'' # r = a' @ CHR ''/'' # r'"
  shows "a = a' \<and> r = r'"
proof -
  have "takeWhile (\<lambda>c. c \<noteq> CHR ''/'') (x @ CHR ''/'' # y) = x" if "CHR ''/'' \<notin> set x" for x y
    using that by (induction x) auto
  with assms have "a = a'" by metis
  with assms(3) show ?thesis by simp
qed

lemma namespaced_key_owner:
  assumes n: "packageName n" and n': "packageName n'"
    and eq: "n @ ''/'' @ k = n' @ ''/'' @ k'"
  shows "n = n' \<and> k = k'"
proof (cases "startsWith n ''@''")
  case scoped: True
  then have hd: "n \<noteq> []" "hd n = CHR ''@''"
    by (cases n; simp add: startsWith_def)+
  show ?thesis
  proof (cases "startsWith n' ''@''")
    case True
    from n scoped obtain a b where ab: "n = a @ CHR ''/'' # b" "CHR ''/'' \<notin> set a" "CHR ''/'' \<notin> set b"
      unfolding packageName_def using one_slash by fastforce
    from n' True obtain a' b' where ab': "n' = a' @ CHR ''/'' # b'" "CHR ''/'' \<notin> set a'" "CHR ''/'' \<notin> set b'"
      unfolding packageName_def using one_slash by fastforce
    from eq ab(1) ab'(1) have "a @ CHR ''/'' # (b @ CHR ''/'' # k) = a' @ CHR ''/'' # (b' @ CHR ''/'' # k')"
      by simp
    with ab(2) ab'(2) have "a = a'" and "b @ CHR ''/'' # k = b' @ CHR ''/'' # k'"
      using before_first_slash by blast+
    with ab(3) ab'(3) have "b = b'" and "k = k'"
      using before_first_slash by blast+
    with \<open>a = a'\<close> ab(1) ab'(1) show ?thesis by simp
  next
    case False
    with n' have "n' \<noteq> []" "hd n' \<noteq> CHR ''@''"
      by (cases n'; simp add: packageName_def startsWith_def)+
    moreover from eq have "hd (n @ ''/'' @ k) = hd (n' @ ''/'' @ k')" by simp
    ultimately show ?thesis using hd by simp
  qed
next
  case plain: False
  with n have free: "n \<noteq> []" "CHR ''/'' \<notin> set n" and at: "hd n \<noteq> CHR ''@''"
    by (cases n; simp add: packageName_def startsWith_def)+
  show ?thesis
  proof (cases "startsWith n' ''@''")
    case True
    then have "n' \<noteq> []" "hd n' = CHR ''@''"
      by (cases n'; simp add: startsWith_def)+
    moreover from eq have "hd (n @ ''/'' @ k) = hd (n' @ ''/'' @ k')" by simp
    ultimately show ?thesis using free at by simp
  next
    case False
    with n' have "CHR ''/'' \<notin> set n'"
      by (simp add: packageName_def)
    with free eq show ?thesis
      using before_first_slash [of n n' k k'] by simp
  qed
qed

lemma contribution_keys:
  "K \<in> fst ` set (contributions deps) \<Longrightarrow>
     \<exists>n c k. (n, c) \<in> set deps \<and> K = n @ ''/'' @ k"
  by (auto simp: contributions_def fst_namespaced)

lemma contributions_distinct:
  assumes "distinct (map fst deps)"
    and "\<forall>d \<in> set deps. packageName (fst d) \<and> wellShaped (snd d)"
  shows "distinct (map fst (contributions deps))"
  using assms
proof (induction deps)
  case Nil
  then show ?case by (simp add: contributions_def)
next
  case (Cons d rest)
  obtain n c where d: "d = (n, c)" by (cases d)
  from Cons.prems d have n: "packageName n" and c: "wellShaped c"
    and fresh: "n \<notin> fst ` set rest" and rest: "distinct (map fst rest)"
    "\<forall>d \<in> set rest. packageName (fst d) \<and> wellShaped (snd d)"
    by auto
  let ?own = "map (namespaced n) (pathsOf c)"
  have "map fst ?own = map (\<lambda>k. n @ ''/'' @ k) (map fst (pathsOf c))"
    by (simp add: fst_namespaced comp_def)
  moreover have "distinct (map fst (pathsOf c))"
    using c by (simp add: wellShaped_def)
  ultimately have own: "distinct (map fst ?own)"
    by (simp add: distinct_map inj_on_def)
  have apart: "fst ` set ?own \<inter> fst ` set (contributions rest) = {}"
  proof (rule ccontr)
    assume "fst ` set ?own \<inter> fst ` set (contributions rest) \<noteq> {}"
    then obtain K where K: "K \<in> fst ` set ?own" "K \<in> fst ` set (contributions rest)"
      by blast
    from K(1) obtain k where k: "K = n @ ''/'' @ k"
      by (auto simp: fst_namespaced)
    from contribution_keys [OF K(2)] obtain n' c' k'
      where other: "(n', c') \<in> set rest" "K = n' @ ''/'' @ k'"
      by blast
    from other(1) rest(2) have "packageName n'" by auto
    from k other(2) have "n @ ''/'' @ k = n' @ ''/'' @ k'" by simp
    with n \<open>packageName n'\<close> have "n = n'" by (blast dest: namespaced_key_owner)
    with other(1) fresh show False by force
  qed
  from Cons.IH [OF rest] own apart show ?case
    by (simp add: d contributions_Cons image_image)
qed

lemma Map_set_keys:
  "fst ` set (Map_set kvs k v) = insert k (fst ` set kvs)"
  by (induction kvs) force+

lemma Map_set_distinct:
  "distinct (map fst kvs) \<Longrightarrow> distinct (map fst (Map_set kvs k v))"
proof (induction kvs)
  case Nil
  then show ?case by simp
next
  case (Cons kv kvs)
  then show ?case
    using Map_set_keys [of kvs k v] by (cases kv) (auto simp: image_iff)
qed

lemma packageName_plain:
  "nm \<noteq> [] \<Longrightarrow> CHR ''/'' \<notin> set nm \<Longrightarrow> \<not> startsWith nm ''@'' \<Longrightarrow> packageName nm"
  by (simp add: packageName_def)

lemma packageName_scoped:
  assumes "startsWith scope ''@''" and "CHR ''/'' \<notin> set scope" and "CHR ''/'' \<notin> set nm"
  shows "packageName (scope @ ''/'' @ nm)"
proof -
  from assms(1) have "startsWith (scope @ ''/'' @ nm) ''@''"
    by (cases scope) (simp_all add: startsWith_def)
  moreover have "filter (\<lambda>c. c = CHR ''/'') scope = []" "filter (\<lambda>c. c = CHR ''/'') nm = []"
    using assms(2,3) by (auto simp: filter_empty_conv)
  ultimately show ?thesis by (simp add: packageName_def)
qed

lemma namedMap_set:
  assumes "namedMap deps" and "packageName k"
  shows "namedMap (Map_set deps k v)"
proof -
  have "\<forall>d \<in> set (Map_set deps k v). packageName (fst d)"
  proof
    fix d assume "d \<in> set (Map_set deps k v)"
    then have "fst d \<in> insert k (fst ` set deps)"
      using Map_set_keys [of deps k v] by blast
    with assms show "packageName (fst d)"
      by (auto simp: namedMap_def list_all_iff)
  qed
  with assms(1) show ?thesis
    by (simp add: namedMap_def list_all_iff Map_set_distinct)
qed

lemma scanScope_named:
  assumes "namedMap deps" and "startsWith scope ''@''" and "CHR ''/'' \<notin> set scope"
    and "list_all (\<lambda>entry. name entry \<noteq> [] \<and> CHR ''/'' \<notin> set (name entry)) entries"
  shows "namedMap (scanScope env scopePath scope entries deps)"
  using assms
proof (induction entries arbitrary: deps)
  case Nil
  then show ?case by simp
next
  case (Cons entry entries)
  from Cons.prems have "packageName (scope @ ''/'' @ name entry)"
    by (intro packageName_scoped) simp_all
  with Cons.prems(1)
  have "namedMap (if kind entry = IsDirectory
        then (case resolvePackageConfig env (join env scopePath (name entry)) of
                None \<Rightarrow> deps
              | Some config \<Rightarrow> Map_set deps (scope @ ''/'' @ name entry) config)
        else deps)"
    by (auto simp: namedMap_set split: option.splits)
  then show ?case
    using Cons.IH Cons.prems by simp
qed

lemma scanEntries_named:
  assumes "entryNames env" and "namedMap deps"
    and "list_all (\<lambda>entry. name entry \<noteq> [] \<and> CHR ''/'' \<notin> set (name entry)) entries"
  shows "namedMap (fst (scanEntries env nm entries deps))"
  using assms(2,3)
proof (induction entries arbitrary: deps)
  case Nil
  then show ?case by simp
next
  case (Cons entry entries)
  then have nm: "name entry \<noteq> []" "CHR ''/'' \<notin> set (name entry)"
    and rest: "list_all (\<lambda>entry. name entry \<noteq> [] \<and> CHR ''/'' \<notin> set (name entry)) entries"
    by simp_all
  consider (plain) "kind entry = IsDirectory" "\<not> startsWith (name entry) ''@''"
    | (scope) "kind entry = IsDirectory" "startsWith (name entry) ''@''"
    | (other) "kind entry \<noteq> IsDirectory"
    by blast
  then show ?case
  proof cases
    case plain
    from nm plain(2) have "packageName (name entry)" by (intro packageName_plain)
    with Cons.prems(1)
    have "namedMap (case resolvePackageConfig env (join env nm (name entry)) of
                None \<Rightarrow> deps
              | Some config \<Rightarrow> Map_set deps (name entry) config)"
      by (auto simp: namedMap_set split: option.splits)
    from Cons.IH [OF this rest] plain show ?thesis by simp
  next
    case scope
    show ?thesis
    proof (cases "readdir env (join env nm (name entry))")
      case (Inl e)
      with scope Cons.prems(1) show ?thesis by simp
    next
      case (Inr scopedEntries)
      with assms(1)
      have "list_all (\<lambda>entry. name entry \<noteq> [] \<and> CHR ''/'' \<notin> set (name entry)) scopedEntries"
        by (auto simp: entryNames_def)
      with Cons.prems(1) scope(2) nm(2)
      have "namedMap (scanScope env (join env nm (name entry)) (name entry) scopedEntries deps)"
        by (intro scanScope_named)
      from Cons.IH [OF this rest] scope Inr show ?thesis by simp
    qed
  next
    case other
    with Cons.IH [OF Cons.prems(1) rest] show ?thesis by simp
  qed
qed

lemma scanNodeModules_named:
  assumes "entryNames env" and "scanNodeModules env projectRoot = Inr deps"
  shows "namedMap deps"
proof (cases "readdir env (join env projectRoot ''node_modules'')")
  case (Inl e)
  with assms(2) show ?thesis
    by (auto simp: scanNodeModules_def scanNodeModulesTry_def namedMap_def)
next
  case (Inr entries)
  with assms(1)
  have "list_all (\<lambda>entry. name entry \<noteq> [] \<and> CHR ''/'' \<notin> set (name entry)) entries"
    by (auto simp: entryNames_def)
  moreover have "namedMap []" by (simp add: namedMap_def)
  ultimately have "namedMap (fst (scanEntries env (join env projectRoot ''node_modules'') entries []))"
    using assms(1) by (intro scanEntries_named)
  with assms(2) Inr show ?thesis
    by (auto simp: scanNodeModules_def scanNodeModulesTry_def split: prod.splits)
qed

section \<open>Folding the configurations of named dependencies\<close>

text \<open>
  Claim C5, as amended. Let the map of dependency configurations be keyed by package names
  (a directory name, or \<^verbatim>\<open>@scope/name\<close>), each once, as \<^verbatim>\<open>scanNodeModules\<close> builds it, and
  let the configurations have the shapes the code assumes: in the project configuration
  and in every dependency configuration \<^verbatim>\<open>paths\<close>, if truthy, is an object and \<^verbatim>\<open>types\<close>,
  if truthy, is an array, and in a dependency configuration the values of \<^verbatim>\<open>paths\<close> are
  arrays of strings (one property per key, as parsed). Then the fold returns a
  configuration in which every path entry \<open>(k, ps)\<close> of every dependency appears under the
  key \<^verbatim>\<open><dependencyName>/<k>\<close> with each target of \<open>ps\<close> prefixed by
  \<^verbatim>\<open>node_modules/<dependencyName>/\<close>, every other path key is as in the project
  configuration, and the type list is the project's followed by the dependencies' lists
  in the order of the map, nothing removed.
\<close>

theorem incorporateDependencyConfigs_fold:
  assumes "namedMap dependencyConfigs"
    and "shapedOptions (optionsOf projectConfig)"
    and "\<forall>d \<in> set dependencyConfigs. wellShaped (snd d)"
  shows "\<exists>updated. incorporateDependencyConfigs projectConfig dependencyConfigs = Inr updated
       \<and> (\<forall>(dependencyName, dependencyConfig) \<in> set dependencyConfigs.
            \<forall>(k, v) \<in> set (pathsOf dependencyConfig).
              \<exists>ps. v = JArr (map JStr ps)
                \<and> map_of (pathsOf updated) (dependencyName @ ''/'' @ k)
                    = Some (JArr (map (\<lambda>p. JStr (''node_modules/'' @ dependencyName @ ''/'' @ p)) ps)))
       \<and> (\<forall>K. K \<notin> fst ` set (contributions dependencyConfigs) \<longrightarrow>
              map_of (pathsOf updated) K = map_of (pathsOf projectConfig) K)
       \<and> typesOf updated
           = typesOf projectConfig @ concat (map (\<lambda>d. typesOf (snd d)) dependencyConfigs)"
proof -
  from assms(1,3) have "distinct (map fst (contributions dependencyConfigs))"
    by (intro contributions_distinct) (auto simp: namedMap_def list_all_iff)
  with assms(2,3) show ?thesis
    by (rule incorporateDependencyConfigs_apart)
qed

theorem incorporateDependencyConfigs_fold_witness:
  "\<exists>updated. incorporateDependencyConfigs projectExample dependencyExample = Inr updated
     \<and> map_of (pathsOf updated) ''left-pad/lib/*''
         = Some (JArr [JStr ''node_modules/left-pad/dist/*'', JStr ''node_modules/left-pad/src/*''])
     \<and> map_of (pathsOf updated) ''@app/*'' = Some (JArr [JStr ''src/*''])
     \<and> typesOf updated = [JStr ''node'', JStr ''node'', JStr ''jest'', JStr ''node'']"
proof -
  let ?pad = "emptyConfig\<lparr>compilerOptions :=
         Some [(''paths'', JObj [(''lib/*'', JArr [JStr ''dist/*'', JStr ''src/*''])]),
               (''types'', JArr [JStr ''node'', JStr ''jest''])]\<rparr>"
  have named: "namedMap dependencyExample"
    by (simp add: namedMap_def packageName_def startsWith_def dependencyExample_def)
  have project: "shapedOptions (optionsOf projectExample)"
    by (simp add: shapedOptions_def optionsOf_def projectExample_def)
  have deps: "\<forall>d \<in> set dependencyExample. wellShaped (snd d)"
    by (simp add: dependencyExample_def wellShaped_def shapedOptions_def optionsOf_def
        pathsOf_def pathEntries_def)
       (rule exI [of _ "[''dist/*'', ''src/*'']"], simp)
  have paths: "pathsOf ?pad = [(''lib/*'', JArr [JStr ''dist/*'', JStr ''src/*''])]"
    "pathsOf projectExample = [(''@app/*'', JArr [JStr ''src/*''])]"
    by (simp_all add: pathsOf_def pathEntries_def optionsOf_def projectExample_def)
  have contrib: "contributions dependencyExample
      = [(''left-pad/lib/*'',
          JArr [JStr ''node_modules/left-pad/dist/*'', JStr ''node_modules/left-pad/src/*''])]"
    by (simp add: contributions_def dependencyExample_def pathsOf_def pathEntries_def
        optionsOf_def namespaced_def)
  from incorporateDependencyConfigs_fold [OF named project deps] obtain updated
    where run: "incorporateDependencyConfigs projectExample dependencyExample = Inr updated"
      and present: "\<forall>(dependencyName, dependencyConfig) \<in> set dependencyExample.
            \<forall>(k, v) \<in> set (pathsOf dependencyConfig).
              \<exists>ps. v = JArr (map JStr ps)
                \<and> map_of (pathsOf updated) (dependencyName @ ''/'' @ k)
                    = Some (JArr (map (\<lambda>p. JStr (''node_modules/'' @ dependencyName @ ''/'' @ p)) ps))"
      and kept: "\<forall>K. K \<notin> fst ` set (contributions dependencyExample) \<longrightarrow>
              map_of (pathsOf updated) K = map_of (pathsOf projectExample) K"
      and types: "typesOf updated
           = typesOf projectExample @ concat (map (\<lambda>d. typesOf (snd d)) dependencyExample)"
    by blast
  have "(''left-pad'', ?pad) \<in> set dependencyExample"
    by (simp add: dependencyExample_def)
  with present have "\<forall>(k, v) \<in> set (pathsOf ?pad).
              \<exists>ps. v = JArr (map JStr ps)
                \<and> map_of (pathsOf updated) (''left-pad'' @ ''/'' @ k)
                    = Some (JArr (map (\<lambda>p. JStr (''node_modules/'' @ ''left-pad'' @ ''/'' @ p)) ps))"
    by blast
  then have a: "map_of (pathsOf updated) ''left-pad/lib/*''
         = Some (JArr [JStr ''node_modules/left-pad/dist/*'', JStr ''node_modules/left-pad/src/*''])"
    unfolding paths by (auto simp: Cons_eq_map_conv)
  have "''@app/*'' \<notin> fst ` set (contributions dependencyExample)"
    by (simp add: contrib)
  with kept have b: "map_of (pathsOf updated) ''@app/*'' = Some (JArr [JStr ''src/*''])"
    by (simp add: paths)
  have "typesOf projectExample @ concat (map (\<lambda>d. typesOf (snd d)) dependencyExample)
          = [JStr ''node'', JStr ''node'', JStr ''jest'', JStr ''node'']"
    by (simp add: typesOf_def typeEntries_def optionsOf_def projectExample_def
        dependencyExample_def)
  with types have c: "typesOf updated = [JStr ''node'', JStr ''node'', JStr ''jest'', JStr ''node'']"
    by (simp only:)
  from run a b c show ?thesis by blast
qed

text \<open>
  The claim as stated covers the project configuration
  \<^verbatim>\<open>{"compilerOptions": {"types": "node"}}\<close>, whose \<^verbatim>\<open>types\<close> is a string, with the
  dependency \<^verbatim>\<open>dep\<close> that declares the types \<^verbatim>\<open>["jest"]\<close>, and asks for a configuration
  to which \<^verbatim>\<open>jest\<close> is appended. The string is truthy and is kept, it has no \<^verbatim>\<open>push\<close>, and
  the call throws a \<^verbatim>\<open>TypeError\<close>: no configuration is produced.
\<close>

theorem incorporateDependencyConfigs_throws:
  "incorporateDependencyConfigs stringTypesProject jestDependency = Inl TypeError
   \<and> map (\<lambda>d. (fst d, typesOf (snd d))) jestDependency = [(''dep'', [JStr ''jest''])]
   \<and> optionOf stringTypesProject ''types'' = Some (JStr ''node'')"
  by (simp add: incorporateDependencyConfigs_def stringTypesProject_def jestDependency_def
      emptyConfig_def mergePaths_def mergeTypes_def ensureOption_def spreadArguments_def
      typesOf_def typeEntries_def optionsOf_def optionOf_def)

section \<open>The maps the pipeline folds\<close>

text \<open>
  The maps the pipeline folds. On a file system whose directory entries have non-empty
  names without a separator, the map \<open>scanNodeModules\<close> returns has each key once and
  every key is a package name, plain or scoped. For dependency configurations of the
  assumed shapes the namespaced keys are then pairwise distinct, and the fold puts every
  path entry of every dependency under its namespaced key.
\<close>

theorem scanned_dependencies_fold:
  assumes "entryNames env"
    and "scanNodeModules env projectRoot = Inr dependencyConfigs"
    and "\<forall>d \<in> set dependencyConfigs. wellShaped (snd d)"
    and "shapedOptions (optionsOf projectConfig)"
  shows "namedMap dependencyConfigs
       \<and> distinct (map fst (contributions dependencyConfigs))
       \<and> (\<exists>updated. incorporateDependencyConfigs projectConfig dependencyConfigs = Inr updated
            \<and> (\<forall>(dependencyName, dependencyConfig) \<in> set dependencyConfigs.
                 \<forall>(k, v) \<in> set (pathsOf dependencyConfig).
                   \<exists>ps. v = JArr (map JStr ps)
                     \<and> map_of (pathsOf updated) (dependencyName @ ''/'' @ k)
                         = Some (JArr (map (\<lambda>p. JStr (''node_modules/'' @ dependencyName @ ''/'' @ p)) ps))))"
proof -
  from scanNodeModules_named [OF assms(1,2)] have named: "namedMap dependencyConfigs" .
  with assms(3) have apart: "distinct (map fst (contributions dependencyConfigs))"
    by (intro contributions_distinct) (auto simp: namedMap_def list_all_iff)
  from incorporateDependencyConfigs_apart [OF assms(4,3) apart] named apart
  show ?thesis by blast
qed

lemma scopedEnv_scan:
  "scanNodeModules scopedEnv ''proj''
     = Inr [(''left-pad'', mappedSource), (''@types/node'', mappedSource)]"
  by (simp add: scanNodeModules_def scanNodeModulesTry_def scopedEnv_def startsWith_def
      resolvePackageConfig_def resolvePackageConfigTry_def findTSConfig_def possiblePaths_def
      readTSConfig_def)

theorem scanned_dependencies_fold_witness:
  "namedMap [(''left-pad'', mappedSource), (''@types/node'', mappedSource)]
   \<and> distinct (map fst (contributions [(''left-pad'', mappedSource), (''@types/node'', mappedSource)]))
   \<and> contributions [(''left-pad'', mappedSource), (''@types/node'', mappedSource)]
       = [(''left-pad/lib/*'', JArr [JStr ''node_modules/left-pad/dist/*'']),
          (''@types/node/lib/*'', JArr [JStr ''node_modules/@types/node/dist/*''])]"
proof -
  let ?deps = "[(''left-pad'', mappedSource), (''@types/node'', mappedSource)]"
  have names: "entryNames scopedEnv"
    by (simp add: entryNames_def scopedEnv_def)
  have paths: "pathsOf mappedSource = [(''lib/*'', JArr [JStr ''dist/*''])]"
    by (simp add: pathsOf_def pathEntries_def optionsOf_def mappedSource_def)
  have "wellShaped mappedSource"
    unfolding wellShaped_def paths
    by (simp add: shapedOptions_def optionsOf_def mappedSource_def)
       (rule exI [of _ "[''dist/*'']"], simp)
  then have shaped: "\<forall>d \<in> set ?deps. wellShaped (snd d)" by simp
  have project: "shapedOptions (optionsOf emptyConfig)"
    by (simp add: shapedOptions_def optionsOf_def emptyConfig_def)
  from scanned_dependencies_fold [OF names scopedEnv_scan shaped project]
  have a: "namedMap ?deps" and b: "distinct (map fst (contributions ?deps))"
    by blast+
  have c: "contributions ?deps
       = [(''left-pad/lib/*'', JArr [JStr ''node_modules/left-pad/dist/*'']),
          (''@types/node/lib/*'', JArr [JStr ''node_modules/@types/node/dist/*''])]"
    by (simp add: contributions_def paths namespaced_def)
  from a b c show ?thesis by blast
qed

end
